theory Spec2Isabelle
  imports Complex_Main "HOL-Library.AList"
begin

section \<open>Values shared by the whole client\<close>

text \<open>
  The client is the TypeScript module \<^verbatim>\<open>docuware.ts\<close>.  Its functions are
  \<^verbatim>\<open>async\<close>, but every call is awaited before the next statement runs, so
  each function is embedded as a sequential function.  What the outside world
  answers (the HTTP library, the random number generator, the remote service)
  is an argument of the embedded function.

  A JavaScript \<^verbatim>\<open>Number\<close> is embedded as a rational number: no claim
  proved below depends on the rounding of doubles.  A JavaScript string is a
  \<^typ>\<open>string\<close>, one \<^typ>\<open>char\<close> per code unit.
\<close>

text \<open>What an awaited call of the wrapper hands back: a response body, \<^verbatim>\<open>null\<close>
  or \<^verbatim>\<open>undefined\<close>.\<close>

datatype 'a js_result = Data 'a | Null | Undefined

text \<open>
  The mutable record \<^verbatim>\<open>GLOBALS\<close> and its initial value.  Its interface
  declares \<^verbatim>\<open>endpoint\<close> and \<^verbatim>\<open>cookie\<close> strings, and as strings the HTTP
  wrapper reads them.  The command dispatcher assigns flags of the command line
  to the two fields, and a flag need not be a string: the type of the two fields
  is a parameter of the record, \<^typ>\<open>string\<close> everywhere but in the
  dispatcher.
\<close>

record 'v Globals_of =
  endpoint :: 'v
  cookie :: 'v
  retryMaxCount :: rat
  retryDelayBaseInSeconds :: rat
  retryDelayRandomMinInSeconds :: rat
  retryDelayRandomMaxInSeconds :: rat

type_synonym Globals = "string Globals_of"

definition GLOBALS :: Globals where
  "GLOBALS = \<lparr>endpoint = '''', cookie = '''', retryMaxCount = 100,
     retryDelayBaseInSeconds = 10, retryDelayRandomMinInSeconds = 10,
     retryDelayRandomMaxInSeconds = 20\<rparr>"

section \<open>JavaScript strings and objects\<close>

text \<open>
  \<^verbatim>\<open>String.prototype.trim\<close> removes white space and line terminators from
  both ends.  Among the code units below 256 these are tab, line feed, vertical
  tab, form feed, carriage return, space and the no-break space.
\<close>

definition isWhiteSpace :: "char \<Rightarrow> bool" where
  "isWhiteSpace c = (c \<in> set [CHR 0x09, CHR 0x0A, CHR 0x0B, CHR 0x0C, CHR 0x0D, CHR '' '', CHR 0xA0])"

definition trim :: "string \<Rightarrow> string" where
  "trim s = rev (dropWhile isWhiteSpace (rev (dropWhile isWhiteSpace s)))"

text \<open>\<^verbatim>\<open>Array.prototype.join\<close> on an array of strings.\<close>

fun join :: "string \<Rightarrow> string list \<Rightarrow> string" where
  "join sep [] = ''''"
| "join sep [x] = x"
| "join sep (x # y # ys) = x @ sep @ join sep (y # ys)"

text \<open>
  An object built from the literal \<^verbatim>\<open>{}\<close> by assignments \<^verbatim>\<open>obj[key] = v\<close>:
  its own properties in the order of their creation.  Assigning to an existing
  key replaces the value in place, assigning to a new key appends it.  The key
  \<^verbatim>\<open>__proto__\<close> is different: the assignment reaches the accessor inherited
  from \<^verbatim>\<open>Object.prototype\<close> and creates no own property.  The accessor
  ignores a value that is no object, so every string; given an object or
  \<^verbatim>\<open>null\<close> it replaces the prototype of \<^verbatim>\<open>obj\<close>.  The embedding keeps the
  own properties only and follows no prototype: it covers the objects on which
  no object and no \<^verbatim>\<open>null\<close> is assigned to \<^verbatim>\<open>__proto__\<close>, and on every
  object the own properties under the other keys.
\<close>

type_synonym 'v js_object = "(string \<times> 'v) list"

definition setProperty :: "'v js_object \<Rightarrow> string \<Rightarrow> 'v \<Rightarrow> 'v js_object" where
  "setProperty obj key v = (if key = ''__proto__'' then obj else AList.update key v obj)"

definition getProperty :: "'v js_object \<Rightarrow> string \<Rightarrow> 'v option" where
  "getProperty obj key = map_of obj key"

text \<open>
  \<^verbatim>\<open>Object.keys\<close> lists the keys that are array indices (canonical decimal
  numerals below \<open>2\<^sup>3\<^sup>2 - 1\<close>) first, in ascending numeric order, and the other
  keys after them in the order of their creation.
\<close>

definition isDigit :: "char \<Rightarrow> bool" where
  "isDigit c = (c \<in> set ''0123456789'')"

definition numericValue :: "string \<Rightarrow> int" where
  "numericValue s = foldl (\<lambda>n c. 10 * n + (of_char c - 48)) 0 s"

definition isArrayIndex :: "string \<Rightarrow> bool" where
  "isArrayIndex s =
     (s \<noteq> [] \<and> list_all isDigit s \<and> (s = ''0'' \<or> hd s \<noteq> CHR ''0'') \<and>
      numericValue s < 4294967295)"

definition Object_keys :: "'v js_object \<Rightarrow> string list" where
  "Object_keys obj =
     sort_key numericValue (filter isArrayIndex (map fst obj)) @
     filter (\<lambda>key. \<not> isArrayIndex key) (map fst obj)"

section \<open>Cookie formatting\<close>

text \<open>
  \<^verbatim>\<open>cookie.match(/^([^=]+)=([^;]+);/)\<close>: the two groups when the string
  matches, \<open>None\<close> when it does not.  Both classes are negated one-character
  classes followed by the very character they exclude, so the first group is the
  text before the first \<^verbatim>\<open>=\<close> and the second the text between it and the
  next \<^verbatim>\<open>;\<close>, each of them non-empty, and the \<^verbatim>\<open>;\<close> has to be there.
\<close>

definition cookieMatch :: "string \<Rightarrow> (string \<times> string) option" where
  "cookieMatch str =
     (let name = takeWhile (\<lambda>c. c \<noteq> CHR ''='') str;
          rest = dropWhile (\<lambda>c. c \<noteq> CHR ''='') str
      in if name = [] \<or> rest = [] then None
         else
           (let val = takeWhile (\<lambda>c. c \<noteq> CHR '';'') (tl rest);
                tail = dropWhile (\<lambda>c. c \<noteq> CHR '';'') (tl rest)
            in if val = [] \<or> tail = [] then None else Some (name, val)))"

text \<open>The \<^verbatim>\<open>reduce\<close> of \<^verbatim>\<open>formatCookie\<close>, which builds \<^verbatim>\<open>cookieObj\<close>, and
  the function itself.\<close>

definition cookieObj :: "string list \<Rightarrow> string js_object" where
  "cookieObj cookieStr =
     foldl (\<lambda>obj cookie.
              case cookieMatch cookie of
                Some (name, val) \<Rightarrow> setProperty obj name val
              | None \<Rightarrow> obj)
           [] cookieStr"

definition formatCookie :: "string list \<Rightarrow> string" where
  "formatCookie cookieStr =
     trim (join ''; ''
       (map (\<lambda>cookie. cookie @ ''='' @
               (case getProperty (cookieObj cookieStr) cookie of
                  Some v \<Rightarrow> v
                | None \<Rightarrow> ''undefined''))
            (Object_keys (cookieObj cookieStr))))"

text \<open>Vocabulary for the properties of \<^verbatim>\<open>formatCookie\<close>: the elements of a
  list in the order of their first occurrence.\<close>

definition firstSeen :: "'a list \<Rightarrow> 'a list" where
  "firstSeen xs = rev (remdups (rev xs))"

section \<open>The HTTP retry wrapper\<close>

text \<open>
  The argument object handed to \<^verbatim>\<open>axios\<close>.  Both wrappers pass
  \<^verbatim>\<open>validateStatus: (status) => true\<close>, so the library resolves with a
  response for every status and throws only when no response arrives.
\<close>

record 'b axios_config =
  cfg_method :: string
  cfg_url :: string
  cfg_headers :: "(string \<times> string option) list"
  cfg_responseType :: "string option"
  cfg_data :: "'b option"

text \<open>One awaited \<^verbatim>\<open>axios\<close> call either throws or resolves with a status
  and a body.\<close>

datatype ('e, 'a) outcome = Throws 'e | Response int 'a

text \<open>What a run of a wrapper does besides returning: the requests it sends,
  the delays it waits and the exceptions it logs, each tagged with the loop
  counter \<^verbatim>\<open>i\<close> of the attempt.\<close>

datatype ('e, 'b) http_event =
  Axios nat "'b axios_config"
  | Delay nat rat
  | Console_log nat 'e

text \<open>The argument of \<^verbatim>\<open>UtilFunctions.delay\<close> in both wrappers; \<open>r\<close> is the
  value \<^verbatim>\<open>Math.random()\<close> returned.\<close>

definition delaySeconds :: "Globals \<Rightarrow> rat \<Rightarrow> rat" where
  "delaySeconds g r =
     retryDelayBaseInSeconds g +
     of_int \<lfloor>(retryDelayRandomMaxInSeconds g - retryDelayRandomMinInSeconds g) * r\<rfloor>"

text \<open>
  The \<^verbatim>\<open>for\<close> loop of \<^verbatim>\<open>getRequest\<close> and of \<^verbatim>\<open>postRequest\<close>
  from counter \<open>i\<close> on.  The two loops are the same text; they differ in the
  request sent and in what is returned once the loop condition fails
  (\<open>exhausted\<close>).  \<open>axios cfg i\<close> is the outcome of the call made in iteration
  \<open>i\<close>, \<open>random i\<close> the random number drawn there.
\<close>

function requestLoop ::
  "Globals \<Rightarrow> 'b axios_config \<Rightarrow> ('b axios_config \<Rightarrow> nat \<Rightarrow> ('e, 'a) outcome) \<Rightarrow>
   (nat \<Rightarrow> rat) \<Rightarrow> 'a js_result \<Rightarrow> nat \<Rightarrow> 'a js_result \<times> ('e, 'b) http_event list"
where
  "requestLoop g cfg axios random exhausted i =
     (if of_nat i < retryMaxCount g then
        (case axios cfg i of
           Throws ex \<Rightarrow> (Null, [Axios i cfg, Console_log i ex])
         | Response status body \<Rightarrow>
             if status = 200 then (Data body, [Axios i cfg])
             else
               (case requestLoop g cfg axios random exhausted (Suc i) of
                  (res, evs) \<Rightarrow> (res, Axios i cfg # Delay i (delaySeconds g (random i)) # evs)))
      else (exhausted, []))"
  by pat_completeness auto
termination
proof (relation "measure (\<lambda>(g, cfg, axios, random, exhausted, i). nat \<lceil>retryMaxCount g\<rceil> - i)",
    goal_cases)
  case 1
  show ?case by simp
next
  case (2 g cfg axios random exhausted i status body)
  from 2(1) have "of_int (int i) < retryMaxCount g" by simp
  then have "int i < \<lceil>retryMaxCount g\<rceil>" by (simp only: less_ceiling_iff)
  then have "i < nat \<lceil>retryMaxCount g\<rceil>" by simp
  then show ?case by simp
qed

text \<open>The two wrappers: the request each builds, and its loop from \<open>i = 0\<close>.\<close>

definition getConfig :: "Globals \<Rightarrow> string \<Rightarrow> string option \<Rightarrow> 'b axios_config" where
  "getConfig g url responseType =
     \<lparr>cfg_method = ''get'', cfg_url = endpoint g @ ''/'' @ url,
      cfg_headers = [(''Accept'', Some ''application/json''), (''Cookie'', Some (cookie g))],
      cfg_responseType = responseType, cfg_data = None\<rparr>"

definition postConfig :: "Globals \<Rightarrow> string \<Rightarrow> 'b \<Rightarrow> string option \<Rightarrow> 'b axios_config" where
  "postConfig g url body contentType =
     \<lparr>cfg_method = ''post'', cfg_url = endpoint g @ ''/'' @ url,
      cfg_headers = [(''Content-Type'', contentType), (''Accept'', Some ''application/json''),
                     (''Cookie'', Some (cookie g))],
      cfg_responseType = None, cfg_data = Some body\<rparr>"

definition getRequest ::
  "Globals \<Rightarrow> ('b axios_config \<Rightarrow> nat \<Rightarrow> ('e, 'a) outcome) \<Rightarrow> (nat \<Rightarrow> rat) \<Rightarrow>
   string \<Rightarrow> string option \<Rightarrow> 'a js_result \<times> ('e, 'b) http_event list" where
  "getRequest g axios random url responseType =
     requestLoop g (getConfig g url responseType) axios random Undefined 0"

definition postRequest ::
  "Globals \<Rightarrow> ('b axios_config \<Rightarrow> nat \<Rightarrow> ('e, 'a) outcome) \<Rightarrow> (nat \<Rightarrow> rat) \<Rightarrow>
   string \<Rightarrow> 'b \<Rightarrow> string option \<Rightarrow> 'a js_result \<times> ('e, 'b) http_event list" where
  "postRequest g axios random url body contentType =
     requestLoop g (postConfig g url body contentType) axios random Null 0"

text \<open>Vocabulary for the properties of the wrapper: an outcome that makes the
  loop go round again (a response whose status is not 200), and what one such
  iteration does.\<close>

definition nonOk :: "('e, 'a) outcome \<Rightarrow> bool" where
  "nonOk out = (case out of Throws ex \<Rightarrow> False | Response status body \<Rightarrow> status \<noteq> 200)"

definition attemptEvents ::
  "Globals \<Rightarrow> 'b axios_config \<Rightarrow> (nat \<Rightarrow> rat) \<Rightarrow> nat \<Rightarrow> ('e, 'b) http_event list" where
  "attemptEvents g cfg random j = [Axios j cfg, Delay j (delaySeconds g (random j))]"

section \<open>Documents and the query expression\<close>

text \<open>
  A value found in a response of the service after \<^verbatim>\<open>axios\<close> has parsed it,
  \<^verbatim>\<open>undefined\<close> standing for a missing property.  The falsy values are
  \<^verbatim>\<open>undefined\<close>, \<^verbatim>\<open>null\<close>, \<^verbatim>\<open>false\<close>, zero and the empty string.
\<close>

datatype js_value =
  JUndefined
  | JNull
  | JBoolean bool
  | JNumber rat
  | JString string
  | JArray "js_value list"
  | JObject "(string \<times> js_value) list"

fun truthy :: "js_value \<Rightarrow> bool" where
  "truthy JUndefined = False"
| "truthy JNull = False"
| "truthy (JBoolean b) = b"
| "truthy (JNumber n) = (n \<noteq> 0)"
| "truthy (JString s) = (s \<noteq> [])"
| "truthy (JArray xs) = True"
| "truthy (JObject kvs) = True"

text \<open>The only exception the embedded functions raise themselves: reading a
  property, or calling a method, of \<^verbatim>\<open>undefined\<close> or \<^verbatim>\<open>null\<close>.\<close>

datatype js_error = TypeError

text \<open>The document record \<^verbatim>\<open>{id, cabinetId, row}\<close> all retrieval functions
  return.\<close>

record document =
  doc_id :: js_value
  doc_cabinetId :: string
  doc_row :: "js_value js_object"

text \<open>
  The shapes of the service's responses that the client reads.  A header of
  the tabular listing has a \<^verbatim>\<open>FieldName\<close>; a field object has a
  \<^verbatim>\<open>FieldName\<close> and an \<^verbatim>\<open>Item\<close> (\<^verbatim>\<open>undefined\<close> when it is
  absent); the response for one document, and every item of a query result,
  has an array \<^verbatim>\<open>Fields\<close> of field objects.
\<close>

record named =
  FieldName :: string

record field = named +
  Item :: js_value

record fields_object =
  Fields :: "field list"

text \<open>\<^verbatim>\<open>headers[idx]\<close> used as a property key: past the end of the array it
  is \<^verbatim>\<open>undefined\<close>, which as a key reads \<^verbatim>\<open>"undefined"\<close>.\<close>

definition headerKey :: "string list \<Rightarrow> nat \<Rightarrow> string" where
  "headerKey headers idx = (if idx < length headers then headers ! idx else ''undefined'')"

text \<open>The object \<^verbatim>\<open>fieldsMap\<close> that the \<^verbatim>\<open>forEach\<close> over the items of one
  row fills, and the document made of it.  The id is the own property
  \<^verbatim>\<open>DWDOCID\<close> of the object, \<^verbatim>\<open>undefined\<close> without one: nothing of that
  name is on \<^verbatim>\<open>Object.prototype\<close>.\<close>

definition fieldsMapOf :: "string list \<Rightarrow> js_value list \<Rightarrow> js_value js_object" where
  "fieldsMapOf headers items =
     foldl (\<lambda>fieldsMap (item, idx). setProperty fieldsMap (headerKey headers idx) item)
       [] (zip items [0..<length items])"

definition documentOf :: "string list \<Rightarrow> string \<Rightarrow> js_value list \<Rightarrow> document" where
  "documentOf headers fileCabinetId items =
     (let fieldsMap = fieldsMapOf headers items
      in \<lparr>doc_id = (case getProperty fieldsMap ''DWDOCID'' of Some v \<Rightarrow> v | None \<Rightarrow> JUndefined),
          doc_cabinetId = fileCabinetId,
          doc_row = fieldsMap\<rparr>)"

subsection \<open>The query expression parser\<close>

text \<open>\<^verbatim>\<open>String.prototype.split\<close> with a separator of one character, and
  \<^verbatim>\<open>slice(1, -1)\<close>.\<close>

fun split_char :: "char \<Rightarrow> string \<Rightarrow> string list" where
  "split_char c [] = [[]]"
| "split_char c (x # xs) =
     (if x = c then [] # split_char c xs
      else (case split_char c xs of [] \<Rightarrow> [[x]] | part # parts \<Rightarrow> (x # part) # parts))"

definition slice_1_minus_1 :: "string \<Rightarrow> string" where
  "slice_1_minus_1 s = take (length s - 2) (drop 1 s)"

record condition =
  DBName :: string
  Value :: "string list"

record query_body =
  Condition :: "condition list"
  Operation :: string

text \<open>The callback of the \<^verbatim>\<open>map\<close> over the conditions.  The destructuring
  \<^verbatim>\<open>[key, value]\<close> takes the first two parts; with one part only,
  \<^verbatim>\<open>value\<close> is \<^verbatim>\<open>undefined\<close> and \<^verbatim>\<open>value.slice\<close> throws.\<close>

definition parseCondition :: "string \<Rightarrow> js_error + condition" where
  "parseCondition conditionStr =
     (case map trim (split_char CHR ''='' conditionStr) of
        key # val # rest \<Rightarrow> Inr \<lparr>DBName = key, Value = [slice_1_minus_1 val]\<rparr>
      | _ \<Rightarrow> Inl TypeError)"

text \<open>\<^verbatim>\<open>Array.prototype.map\<close> with a callback that may throw: the first
  exception ends the whole \<^verbatim>\<open>map\<close>.\<close>

fun mapResult :: "('a \<Rightarrow> 'e + 'b) \<Rightarrow> 'a list \<Rightarrow> 'e + 'b list" where
  "mapResult f [] = Inr []"
| "mapResult f (x # xs) =
     (case f x of
        Inl e \<Rightarrow> Inl e
      | Inr y \<Rightarrow> (case mapResult f xs of Inl e \<Rightarrow> Inl e | Inr ys \<Rightarrow> Inr (y # ys)))"

text \<open>The object \<^verbatim>\<open>jsonBody\<close> of \<^verbatim>\<open>getDocumentsWithQuery\<close>.\<close>

definition queryBody :: "string \<Rightarrow> js_error + query_body" where
  "queryBody downloadQueryStr =
     (case mapResult parseCondition (split_char CHR ''|'' downloadQueryStr) of
        Inl e \<Rightarrow> Inl e
      | Inr conditions \<Rightarrow> Inr \<lparr>Condition = conditions, Operation = ''Or''\<rparr>)"

subsection \<open>Documents found by a query\<close>

text \<open>
  The response fetched from the query link: \<^verbatim>\<open>Count.Value\<close>, and
  \<^verbatim>\<open>Items\<close>, which may be missing.  \<^verbatim>\<open>getDocumentsWithQuery\<close> is given
  what its calls of \<^verbatim>\<open>postRequest\<close> and \<^verbatim>\<open>getRequest\<close> return.  Reading a
  property of a \<^verbatim>\<open>null\<close> or \<^verbatim>\<open>undefined\<close> result, and reading
  \<^verbatim>\<open>Items[0].Fields\<close> when \<^verbatim>\<open>Items\<close> is missing or empty, throws.
\<close>

record query_result =
  Count_Value :: rat
  Items :: "fields_object list option"

definition getDocumentsWithQuery ::
  "(string \<Rightarrow> query_body \<Rightarrow> string option \<Rightarrow> string js_result) \<Rightarrow>
   (string \<Rightarrow> query_result js_result) \<Rightarrow> string \<Rightarrow> string \<Rightarrow> js_error + document list" where
  "getDocumentsWithQuery postRequest' getRequest' cabinetId downloadQueryStr =
     (case queryBody downloadQueryStr of
        Inl e \<Rightarrow> Inl e
      | Inr jsonBody \<Rightarrow>
          (case postRequest'
                  (''docuware/platform/FileCabinets/'' @ cabinetId @ ''/Query/DialogExpressionLink'')
                  jsonBody (Some ''application/json'') of
             Data res \<Rightarrow>
               (let queryLink = drop 1 res
                in case getRequest' queryLink of
                     Data fetchedDocuments \<Rightarrow>
                       if Count_Value fetchedDocuments = 0 then Inr []
                       else
                         (case Items fetchedDocuments of
                            Some (first # others) \<Rightarrow>
                              (let headers = map FieldName (Fields first)
                               in Inr (map (\<lambda>row. documentOf headers cabinetId (map Item (Fields row)))
                                         (first # others)))
                          | _ \<Rightarrow> Inl TypeError)
                   | _ \<Rightarrow> Inl TypeError)
           | _ \<Rightarrow> Inl TypeError))"

section \<open>One document, and all documents of a cabinet\<close>

text \<open>
  \<^verbatim>\<open>getDocument\<close>, given what its call of \<^verbatim>\<open>getRequest\<close> returns.  The
  \<^verbatim>\<open>reduce\<close> stores \<^verbatim>\<open>field.Item || ""\<close> under every field's name.  A
  \<^verbatim>\<open>null\<close> or \<^verbatim>\<open>undefined\<close> result makes \<^verbatim>\<open>data.Fields\<close> throw.
\<close>

definition getDocument ::
  "(string \<Rightarrow> fields_object js_result) \<Rightarrow> string \<Rightarrow> string \<Rightarrow> js_error + document" where
  "getDocument getRequest' cabinetId id' =
     (case getRequest' (''docuware/platform/FileCabinets/'' @ cabinetId @ ''/Documents/'' @ id') of
        Data data \<Rightarrow>
          (let row = foldl (\<lambda>obj field.
                              setProperty obj (FieldName field)
                                (if truthy (Item field) then Item field else JString ''''))
                       [] (Fields data)
           in Inr \<lparr>doc_id = JString id', doc_cabinetId = cabinetId, doc_row = row\<rparr>)
      | _ \<Rightarrow> Inl TypeError)"

text \<open>
  The tabular listing: a page has \<^verbatim>\<open>Headers\<close> and \<^verbatim>\<open>Rows\<close>, the latter
  possibly missing, and a row has its \<^verbatim>\<open>Items\<close>.
\<close>

record table_row =
  row_Items :: "js_value list"

record table_page =
  Headers :: "named list"
  Rows :: "table_row list option"

text \<open>A non-negative integer in a template literal.\<close>

definition digitChar :: "nat \<Rightarrow> char" where
  "digitChar d = ''0123456789'' ! d"

fun string_of_nat :: "nat \<Rightarrow> string" where
  "string_of_nat n =
     (if n < 10 then [digitChar n] else string_of_nat (n div 10) @ [digitChar (n mod 10)])"

definition batchRequestCount :: nat where
  "batchRequestCount = 1000"

definition documentsUrl :: "string \<Rightarrow> nat \<Rightarrow> string" where
  "documentsUrl fileCabinetId start =
     ''docuware/platform/FileCabinets/'' @ fileCabinetId @ ''/Documents?format=table&start='' @
     string_of_nat start @ ''&count='' @ string_of_nat batchRequestCount"

text \<open>
  The \<^verbatim>\<open>while (true)\<close> loop of \<^verbatim>\<open>getAllDocumentsFromCabinet\<close> with its
  variables \<^verbatim>\<open>start\<close>, \<^verbatim>\<open>documents\<close> and \<^verbatim>\<open>headers\<close>; \<open>requested\<close>
  records the paths passed to \<^verbatim>\<open>getRequest\<close> so far.  The loop need not end:
  a run that never reaches \<^verbatim>\<open>break\<close> is \<open>None\<close>.
\<close>

partial_function (option) documentsLoop ::
  "(string \<Rightarrow> table_page js_result) \<Rightarrow> string \<Rightarrow> nat \<Rightarrow> document list \<Rightarrow>
   string list option \<Rightarrow> string list \<Rightarrow> ((js_error + document list) \<times> string list) option"
where
  "documentsLoop getRequest' fileCabinetId start documents headers requested =
     (case getRequest' (documentsUrl fileCabinetId start) of
        Data fetchedDocuments \<Rightarrow>
          (case (case headers of
                   None \<Rightarrow> map FieldName (Headers fetchedDocuments)
                 | Some names \<Rightarrow> names) of
             headers' \<Rightarrow>
               (case Rows fetchedDocuments of
                  None \<Rightarrow> Some (Inr documents, requested @ [documentsUrl fileCabinetId start])
                | Some [] \<Rightarrow> Some (Inr documents, requested @ [documentsUrl fileCabinetId start])
                | Some (r # rs) \<Rightarrow>
                    documentsLoop getRequest' fileCabinetId (start + batchRequestCount)
                      (documents @
                       map (\<lambda>row. documentOf headers' fileCabinetId (row_Items row)) (r # rs))
                      (Some headers')
                      (requested @ [documentsUrl fileCabinetId start])))
      | _ \<Rightarrow> Some (Inl TypeError, requested @ [documentsUrl fileCabinetId start]))"

definition getAllDocumentsFromCabinet ::
  "(string \<Rightarrow> table_page js_result) \<Rightarrow> string \<Rightarrow>
   ((js_error + document list) \<times> string list) option" where
  "getAllDocumentsFromCabinet getRequest' fileCabinetId =
     documentsLoop getRequest' fileCabinetId 0 [] None []"

text \<open>Vocabulary for the properties of the pagination: the rows of a page, none
  when \<^verbatim>\<open>Rows\<close> is missing; and rows to run the loop on, one item each, the
  \<open>n\<close> numbers from \<open>a\<close> on.\<close>

definition rowsOf :: "table_page \<Rightarrow> table_row list" where
  "rowsOf page = (case Rows page of None \<Rightarrow> [] | Some rows \<Rightarrow> rows)"

definition numberedRows :: "nat \<Rightarrow> nat \<Rightarrow> table_row list" where
  "numberedRows a n = map (\<lambda>i. \<lparr>row_Items = [JNumber (of_nat i)]\<rparr>) [a..<a + n]"

text \<open>A service to run the loop on: it answers the first window of cabinet
  \<^verbatim>\<open>c\<close> with the rows \<open>rows0\<close>, the second with \<open>rows1\<close> and every other
  request with no rows; the only header is \<^verbatim>\<open>DWDOCID\<close>.\<close>

definition threePages :: "table_row list \<Rightarrow> table_row list \<Rightarrow> nat \<Rightarrow> table_page" where
  "threePages rows0 rows1 j =
     \<lparr>Headers = [\<lparr>FieldName = ''DWDOCID''\<rparr>],
      Rows = Some (if j = 0 then rows0 else if j = 1 then rows1 else [])\<rparr>"

definition threePageSource ::
  "table_row list \<Rightarrow> table_row list \<Rightarrow> string \<Rightarrow> table_page js_result" where
  "threePageSource rows0 rows1 url =
     (if url = ''docuware/platform/FileCabinets/c/Documents?format=table&start=0&count=1000''
      then Data (threePages rows0 rows1 0)
      else if url = ''docuware/platform/FileCabinets/c/Documents?format=table&start=1000&count=1000''
      then Data (threePages rows0 rows1 1)
      else Data (threePages rows0 rows1 2))"

section \<open>The command dispatcher\<close>

text \<open>
  \<^verbatim>\<open>DocuwareCMD.execute\<close> reads the command line as \<^verbatim>\<open>minimist\<close> has parsed
  it.  A flag that is not given reads \<^verbatim>\<open>undefined\<close>.  A flag that is given
  is a string, or a number when its text is a numeral (\<^verbatim>\<open>-u 5\<close>); it is
  \<^verbatim>\<open>true\<close> when no value follows it (a bare \<^verbatim>\<open>-u\<close>), an array when it
  is given more than once and an object when its name has a dot.  So
  \<^verbatim>\<open>args\<close> maps the name of a flag to a value of any kind.
\<close>

type_synonym args = "string \<Rightarrow> js_value"

text \<open>
  The functions of the JavaScript runtime that the dispatcher relies on are
  arguments of the embedding: \<^verbatim>\<open>Number\<close> on a string (\<open>None\<close> for
  \<^verbatim>\<open>NaN\<close>), the text of a number, the conversion of an array or object to
  a primitive value (the result of its \<^verbatim>\<open>toString\<close>, or a \<^verbatim>\<open>TypeError\<close> when
  there is no such function to call), \<^verbatim>\<open>JSON.parse\<close> (\<open>None\<close> when it
  throws), \<^verbatim>\<open>JSON.stringify\<close> on the documents, and \<^verbatim>\<open>path.join\<close> on
  two strings.
\<close>

record 'j runtime =
  toNumber :: "string \<Rightarrow> rat option"
  numberToString :: "rat \<Rightarrow> string"
  toPrimitive :: "js_value \<Rightarrow> js_error + string"
  JSON_parse :: "string \<Rightarrow> 'j option"
  JSON_stringify :: "document list \<Rightarrow> string"
  path_join :: "string \<Rightarrow> string \<Rightarrow> string"

text \<open>
  The conversions the language applies on its own: to a string, inside a
  template literal and when \<^verbatim>\<open>+\<close> has a string operand; to a number, in
  \<^verbatim>\<open>isNaN\<close> and \<^verbatim>\<open>Number\<close> (\<open>None\<close> is \<^verbatim>\<open>NaN\<close>); and the comparison
  \<^verbatim>\<open>==\<close> of a value with a string.
\<close>

definition ToString :: "'j runtime \<Rightarrow> js_value \<Rightarrow> js_error + string" where
  "ToString rt v =
     (case v of
        JUndefined \<Rightarrow> Inr ''undefined''
      | JNull \<Rightarrow> Inr ''null''
      | JBoolean b \<Rightarrow> Inr (if b then ''true'' else ''false'')
      | JNumber n \<Rightarrow> Inr (numberToString rt n)
      | JString s \<Rightarrow> Inr s
      | JArray xs \<Rightarrow> toPrimitive rt v
      | JObject kvs \<Rightarrow> toPrimitive rt v)"

definition ToNumber :: "'j runtime \<Rightarrow> js_value \<Rightarrow> js_error + rat option" where
  "ToNumber rt v =
     (case v of
        JUndefined \<Rightarrow> Inr None
      | JNull \<Rightarrow> Inr (Some 0)
      | JBoolean b \<Rightarrow> Inr (Some (if b then 1 else 0))
      | JNumber n \<Rightarrow> Inr (Some n)
      | JString s \<Rightarrow> Inr (toNumber rt s)
      | JArray xs \<Rightarrow>
          (case toPrimitive rt v of Inl e \<Rightarrow> Inl e | Inr s \<Rightarrow> Inr (toNumber rt s))
      | JObject kvs \<Rightarrow>
          (case toPrimitive rt v of Inl e \<Rightarrow> Inl e | Inr s \<Rightarrow> Inr (toNumber rt s)))"

definition looseEquals :: "'j runtime \<Rightarrow> js_value \<Rightarrow> string \<Rightarrow> js_error + bool" where
  "looseEquals rt v s =
     (case v of
        JUndefined \<Rightarrow> Inr False
      | JNull \<Rightarrow> Inr False
      | JBoolean b \<Rightarrow> Inr (toNumber rt s = Some (if b then 1 else 0))
      | JNumber n \<Rightarrow> Inr (toNumber rt s = Some n)
      | JString t \<Rightarrow> Inr (t = s)
      | JArray xs \<Rightarrow>
          (case toPrimitive rt v of Inl e \<Rightarrow> Inl e | Inr t \<Rightarrow> Inr (t = s))
      | JObject kvs \<Rightarrow>
          (case toPrimitive rt v of Inl e \<Rightarrow> Inl e | Inr t \<Rightarrow> Inr (t = s)))"

text \<open>
  The dispatcher awaits the functions of \<^verbatim>\<open>DocuwareHelper\<close>.  What awaiting
  one of them gives is an argument of the embedding as well: a value, an
  exception (the dispatcher catches none but that of \<^verbatim>\<open>JSON.parse\<close>, so which
  exception it is does not matter), or nothing when the function never returns.
  The flags are handed to them as they are.
\<close>

datatype 'a awaited = Settled 'a | Thrown | Pending

record cabinet =
  Name :: string
  Id :: string

record link =
  rel :: string
  href :: string

record upload_response = fields_object +
  Links :: "link list"

record 'j helpers =
  initAuthFromCreds :: "js_value \<Rightarrow> js_value \<Rightarrow> js_value \<Rightarrow> js_value \<Rightarrow> string awaited"
  generateToken :: "js_value \<Rightarrow> js_value \<Rightarrow> js_value \<Rightarrow> js_value \<Rightarrow> (string \<times> string) awaited"
  initAuthFromToken :: "js_value \<Rightarrow> js_value \<Rightarrow> string awaited"
  getFileCabinets :: "string \<Rightarrow> cabinet list option awaited"
  uploadDocument :: "string \<Rightarrow> js_value \<Rightarrow> upload_response js_result awaited"
  getDocument_of :: "string \<Rightarrow> js_value \<Rightarrow> document awaited"
  getDocumentsWithQuery_of :: "string \<Rightarrow> js_value \<Rightarrow> document list awaited"
  getDocumentsWithFunction :: "string \<Rightarrow> js_value \<Rightarrow> document list awaited"
  getAllDocumentsFromCabinet_of :: "string \<Rightarrow> document list awaited"
  updateDocument :: "string \<Rightarrow> js_value \<Rightarrow> 'j \<Rightarrow> unit awaited"
  downloadDocument :: "string \<Rightarrow> js_value \<Rightarrow> bool awaited"

text \<open>
  The authentication helpers return, next to their result, the cookie they
  leave in \<^verbatim>\<open>GLOBALS.cookie\<close>; \<^verbatim>\<open>getFileCabinets\<close> returns the property
  \<^verbatim>\<open>FileCabinet\<close> of the response, which may be missing; \<^verbatim>\<open>downloadDocument\<close>
  returns whether a stream came back rather than \<^verbatim>\<open>null\<close> or
  \<^verbatim>\<open>undefined\<close>.

  What a run does: the lines it prints, the helpers it calls and the files it
  writes, in order.
\<close>

datatype 'j event =
  Log string
  | Called_initAuthFromCreds js_value js_value js_value js_value
  | Called_generateToken js_value js_value js_value js_value
  | Called_initAuthFromToken js_value js_value
  | Called_getFileCabinets string
  | Called_uploadDocument string js_value
  | Called_getDocument string js_value
  | Called_getDocumentsWithQuery string js_value
  | Called_getDocumentsWithFunction string js_value
  | Called_getAllDocumentsFromCabinet string
  | Called_updateDocument string js_value 'j
  | Called_downloadDocument string js_value
  | Created_write_stream string

text \<open>
  How a run ends: \<^verbatim>\<open>execute\<close> returns, it rejects with an exception nobody
  handles, or it waits for ever.  \<open>resolved\<close> is the array \<^verbatim>\<open>documents\<close> once
  the documents have been fetched.  \<open>globals\<close> is the record \<^verbatim>\<open>GLOBALS\<close> as
  the dispatcher has left it; what a helper that throws or never returns has
  written to it by then is not part of it.
\<close>

datatype ending = Returned | Unhandled | Waiting

record 'j run =
  events :: "'j event list"
  globals :: "js_value Globals_of"
  ending :: ending
  resolved :: "document list option"

definition finish ::
  "ending \<Rightarrow> js_value Globals_of \<Rightarrow> 'j event list \<Rightarrow> document list option \<Rightarrow> 'j run" where
  "finish e g evs docs = \<lparr>events = evs, globals = g, ending = e, resolved = docs\<rparr>"

text \<open>Awaiting a helper, and evaluating an expression that may throw: go on
  with the value, or end the run.\<close>

definition await ::
  "'a awaited \<Rightarrow> js_value Globals_of \<Rightarrow> 'j event list \<Rightarrow> document list option \<Rightarrow>
   ('a \<Rightarrow> 'j run) \<Rightarrow> 'j run" where
  "await result g evs docs continue =
     (case result of
        Settled v \<Rightarrow> continue v
      | Thrown \<Rightarrow> finish Unhandled g evs docs
      | Pending \<Rightarrow> finish Waiting g evs docs)"

definition attempt ::
  "js_error + 'a \<Rightarrow> js_value Globals_of \<Rightarrow> 'j event list \<Rightarrow> document list option \<Rightarrow>
   ('a \<Rightarrow> 'j run) \<Rightarrow> 'j run" where
  "attempt result g evs docs continue =
     (case result of
        Inl e \<Rightarrow> finish Unhandled g evs docs
      | Inr v \<Rightarrow> continue v)"

text \<open>A text between double quotes, and \<^verbatim>\<open>replace(/'/g, '"')\<close> on a
  string.\<close>

definition quoted :: "string \<Rightarrow> string" where
  "quoted s = [CHR 0x22] @ s @ [CHR 0x22]"

definition doubleQuotes :: "string \<Rightarrow> string" where
  "doubleQuotes s = map (\<lambda>c. if c = CHR 0x27 then CHR 0x22 else c) s"

text \<open>
  The four retry overrides at the start of \<^verbatim>\<open>execute\<close>, each of the form
  \<^verbatim>\<open>if (args[key] && !isNaN(args[key])) GLOBALS.field = Number(args[key])\<close>.
  When a conversion throws, the fields before it have been assigned: the error
  comes with the record as it is then.
\<close>

definition override :: "'j runtime \<Rightarrow> args \<Rightarrow> string \<Rightarrow> rat \<Rightarrow> js_error + rat" where
  "override rt args key current =
     (if truthy (args key) then
        (case ToNumber rt (args key) of
           Inl e \<Rightarrow> Inl e
         | Inr None \<Rightarrow> Inr current
         | Inr (Some n) \<Rightarrow> Inr n)
      else Inr current)"

definition retryOverrides ::
  "'j runtime \<Rightarrow> args \<Rightarrow> js_value Globals_of \<Rightarrow> (js_error \<times> js_value Globals_of) + js_value Globals_of" where
  "retryOverrides rt args g =
     (case override rt args ''retrymax'' (retryMaxCount g) of
        Inl e \<Rightarrow> Inl (e, g)
      | Inr maxCount \<Rightarrow>
     (let g1 = g\<lparr>retryMaxCount := maxCount\<rparr>
      in case override rt args ''retrybase'' (retryDelayBaseInSeconds g1) of
        Inl e \<Rightarrow> Inl (e, g1)
      | Inr base \<Rightarrow>
     (let g2 = g1\<lparr>retryDelayBaseInSeconds := base\<rparr>
      in case override rt args ''retryrandmin'' (retryDelayRandomMinInSeconds g2) of
        Inl e \<Rightarrow> Inl (e, g2)
      | Inr randomMin \<Rightarrow>
     (let g3 = g2\<lparr>retryDelayRandomMinInSeconds := randomMin\<rparr>
      in case override rt args ''retryrandmax'' (retryDelayRandomMaxInSeconds g3) of
        Inl e \<Rightarrow> Inl (e, g3)
      | Inr randomMax \<Rightarrow> Inr (g3\<lparr>retryDelayRandomMaxInSeconds := randomMax\<rparr>)))))"

text \<open>The modes \<^verbatim>\<open>gencookie\<close> and \<^verbatim>\<open>gentoken\<close>.\<close>

definition execute_gencookie ::
  "'j helpers \<Rightarrow> args \<Rightarrow> js_value Globals_of \<Rightarrow> js_value \<Rightarrow> 'j run" where
  "execute_gencookie h args g endpoint' =
     (let username = args ''u''; password = args ''p''; hostID = args ''h''
      in if \<not> truthy username then finish Returned g [Log ''-u username not defined.''] None
         else if \<not> truthy password then finish Returned g [Log ''-p password not defined.''] None
         else if \<not> truthy hostID then finish Returned g [Log ''-h hostname not defined.''] None
         else
           await (initAuthFromCreds h username password hostID endpoint') g
             [Called_initAuthFromCreds username password hostID endpoint'] None
             (\<lambda>sessionCookie.
                finish Returned (g\<lparr>cookie := JString sessionCookie\<rparr>)
                  [Called_initAuthFromCreds username password hostID endpoint', Log sessionCookie]
                  None))"

definition execute_gentoken ::
  "'j helpers \<Rightarrow> args \<Rightarrow> js_value Globals_of \<Rightarrow> js_value \<Rightarrow> 'j run" where
  "execute_gentoken h args g endpoint' =
     (let username = args ''u''; password = args ''p''; hostID = args ''h''
      in if \<not> truthy username then finish Returned g [Log ''-u username not defined.''] None
         else if \<not> truthy password then finish Returned g [Log ''-p password not defined.''] None
         else if \<not> truthy hostID then finish Returned g [Log ''-h hostname not defined.''] None
         else
           await (generateToken h username password hostID endpoint') g
             [Called_generateToken username password hostID endpoint'] None
             (\<lambda>(token, loginCookie).
                finish Returned (g\<lparr>cookie := JString loginCookie\<rparr>)
                  [Called_generateToken username password hostID endpoint', Log token]
                  None))"

text \<open>
  The loop of the mode \<^verbatim>\<open>download\<close> from index \<open>i\<close> on.  The title of a
  file converts the flag \<^verbatim>\<open>-n\<close> to a string, and \<^verbatim>\<open>path.join\<close> throws a
  \<^verbatim>\<open>TypeError\<close> on a folder that is no string.
\<close>

primrec execute_downloads ::
  "'j runtime \<Rightarrow> 'j helpers \<Rightarrow> string \<Rightarrow> string \<Rightarrow> js_value \<Rightarrow> js_value \<Rightarrow> js_value Globals_of \<Rightarrow>
   document list \<Rightarrow> document list \<Rightarrow> nat \<Rightarrow> 'j event list \<Rightarrow> 'j run" where
  "execute_downloads rt h cabinetText cabinetId' fileName writeFolder g documents [] i evs =
     finish Returned g
       (evs @ [Log (''Downloads completed for '' @ quoted cabinetText)]) (Some documents)"
| "execute_downloads rt h cabinetText cabinetId' fileName writeFolder g documents (document # rest) i evs =
     (let documentId = doc_id document
      in attempt (ToString rt fileName) g evs (Some documents)
           (\<lambda>prefix.
              let documentTitle = prefix @ ''_'' @ string_of_nat i @ ''.pdf'';
                  called = evs @ [Called_downloadDocument cabinetId' documentId]
              in await (downloadDocument h cabinetId' documentId) g called (Some documents)
                   (\<lambda>stream.
                      case writeFolder of
                        JString folder \<Rightarrow>
                          (let created = called @
                                 [Created_write_stream (path_join rt folder documentTitle)]
                           in if stream then
                                execute_downloads rt h cabinetText cabinetId' fileName writeFolder g
                                  documents rest (Suc i)
                                  (created @ [Log (''File '' @ quoted documentTitle @ '' downloaded.'')])
                              else finish Unhandled g created (Some documents))
                      | _ \<Rightarrow> finish Unhandled g called (Some documents))))"

text \<open>
  The \<^verbatim>\<open>switch (mode)\<close> on the fetched documents; its cases compare with
  \<^verbatim>\<open>===\<close>.  In the case \<^verbatim>\<open>update\<close> the method \<^verbatim>\<open>replace\<close> is called on
  \<^verbatim>\<open>args['u'] || ''\<close>: only a string has that method, on any other value the
  call throws a \<^verbatim>\<open>TypeError\<close>.
\<close>

definition execute_mode ::
  "'j runtime \<Rightarrow> 'j helpers \<Rightarrow> args \<Rightarrow> js_value \<Rightarrow> js_value \<Rightarrow> string \<Rightarrow> js_value Globals_of \<Rightarrow>
   document list \<Rightarrow> 'j event list \<Rightarrow> 'j run" where
  "execute_mode rt h args mode cabinetName cabinetId' g documents evs =
     (if mode = JString ''get'' then
        finish Returned g (evs @ [Log (JSON_stringify rt documents)]) (Some documents)
      else if mode = JString ''update'' then
        (case (if truthy (args ''u'') then args ''u'' else JString '''') of
           JString u \<Rightarrow>
             (let updateJSONStr = doubleQuotes u
              in if updateJSONStr = [] then
                   finish Returned g (evs @ [Log ''-u update json not defined.'']) (Some documents)
                 else
                   (case JSON_parse rt updateJSONStr of
                      None \<Rightarrow>
                        finish Returned g
                          (evs @ [Log ''-u is not valid json (remember to use single quotes).''])
                          (Some documents)
                    | Some updateJSON \<Rightarrow>
                        if length documents > 1 then
                          finish Returned g
                            (evs @ [Log ''Multiple matching documents found, tighten the fitler function.''])
                            (Some documents)
                        else
                          (case documents of
                             [] \<Rightarrow>
                               finish Unhandled g (evs @ [Log ''Updating document...''])
                                 (Some documents)
                           | document # others \<Rightarrow>
                               (let documentId = doc_id document;
                                    called = evs @ [Log ''Updating document...'',
                                                    Called_updateDocument cabinetId' documentId updateJSON]
                                in await (updateDocument h cabinetId' documentId updateJSON) g called
                                     (Some documents)
                                     (\<lambda>done'. finish Returned g
                                                 (called @ [Log ''Completed document update...''])
                                                 (Some documents))))))
         | _ \<Rightarrow> finish Unhandled g evs (Some documents))
      else if mode = JString ''download'' then
        (let fileName = (if truthy (args ''n'') then args ''n'' else JString '''');
             writeFolder = args ''p''
         in if \<not> truthy writeFolder then
              finish Returned g (evs @ [Log ''-p write folder path not specified.''])
                (Some documents)
            else if \<not> truthy fileName then
              finish Returned g (evs @ [Log ''-n file name perfix not specified.''])
                (Some documents)
            else
              attempt (ToString rt cabinetName) g evs (Some documents)
                (\<lambda>cabinetText.
                   execute_downloads rt h cabinetText cabinetId' fileName writeFolder g documents
                     documents 0
                     (evs @ [Log (''Starting downloads for '' @ quoted cabinetText)])))
      else
        attempt (ToString rt mode) g evs (Some documents)
          (\<lambda>modeText.
             finish Returned g
               (evs @ [Log (''Mode '' @ quoted modeText @
                            '' not supported, use one of upload/update/download.'')])
               (Some documents)))"

text \<open>The branch that fetches the documents: by id, by query, by predicate, or
  all of them unless the mode is \<^verbatim>\<open>update\<close>.\<close>

definition execute_documents ::
  "'j runtime \<Rightarrow> 'j helpers \<Rightarrow> args \<Rightarrow> js_value \<Rightarrow> js_value \<Rightarrow> string \<Rightarrow> js_value Globals_of \<Rightarrow>
   'j event list \<Rightarrow> 'j run" where
  "execute_documents rt h args mode cabinetName cabinetId' g evs0 =
     (let evs = evs0 @ [Log ''Fetching documents...''];
          downloadFunction = args ''f'';
          downloadQuery = args ''q'';
          specificId = args ''i'';
          fetched = (\<lambda>called documents.
            let evs' = called @ [Log ''Completed document fetching.'']
            in if documents = [] then
                 finish Returned g (evs' @ [Log ''No matching documents found.'']) (Some documents)
               else execute_mode rt h args mode cabinetName cabinetId' g documents evs')
      in if truthy specificId then
           await (getDocument_of h cabinetId' specificId) g
             (evs @ [Called_getDocument cabinetId' specificId]) None
             (\<lambda>document. fetched (evs @ [Called_getDocument cabinetId' specificId]) [document])
         else if truthy downloadQuery then
           await (getDocumentsWithQuery_of h cabinetId' downloadQuery) g
             (evs @ [Called_getDocumentsWithQuery cabinetId' downloadQuery]) None
             (fetched (evs @ [Called_getDocumentsWithQuery cabinetId' downloadQuery]))
         else if truthy downloadFunction then
           await (getDocumentsWithFunction h cabinetId' downloadFunction) g
             (evs @ [Called_getDocumentsWithFunction cabinetId' downloadFunction]) None
             (fetched (evs @ [Called_getDocumentsWithFunction cabinetId' downloadFunction]))
         else
           attempt (looseEquals rt mode ''update'') g evs None
             (\<lambda>updating.
                if \<not> updating then
                  await (getAllDocumentsFromCabinet_of h cabinetId') g
                    (evs @ [Called_getAllDocumentsFromCabinet cabinetId']) None
                    (fetched (evs @ [Called_getAllDocumentsFromCabinet cabinetId']))
                else finish Returned g (evs @ [Log ''None of -f -q -i defined.'']) None))"

text \<open>The mode \<^verbatim>\<open>upload\<close>.\<close>

definition execute_upload ::
  "'j runtime \<Rightarrow> 'j helpers \<Rightarrow> args \<Rightarrow> string \<Rightarrow> js_value Globals_of \<Rightarrow> 'j event list \<Rightarrow> 'j run" where
  "execute_upload rt h args cabinetId' g evs =
     (let readFilePath = args ''p''
      in if \<not> truthy readFilePath then
           finish Returned g (evs @ [Log ''-p read path not specified.'']) None
         else
           (let called = evs @ [Called_uploadDocument cabinetId' readFilePath]
            in await (uploadDocument h cabinetId' readFilePath) g called None
                 (\<lambda>result.
                    case result of
                      Data data \<Rightarrow>
                        (case find (\<lambda>field. FieldName field = ''DWDOCID'') (Fields data) of
                           None \<Rightarrow> finish Unhandled g called None
                         | Some field \<Rightarrow>
                             attempt (ToString rt (Item field)) g called None
                               (\<lambda>idText.
                                  let evs1 = called @ [Log (''DWDOCID: '' @ idText)]
                                  in case find (\<lambda>link. rel link = ''self'') (Links data) of
                                       None \<Rightarrow> finish Unhandled g evs1 None
                                     | Some link \<Rightarrow>
                                         attempt (ToString rt (endpoint g)) g evs1 None
                                           (\<lambda>endpointText.
                                              finish Returned g
                                                (evs1 @ [Log (''LINK: '' @ endpointText @ href link),
                                                         Log ''File uploaded''])
                                                None)))
                    | _ \<Rightarrow> finish Unhandled g called None)))"

text \<open>The cabinets whose name is \<^verbatim>\<open>==\<close> the flag \<^verbatim>\<open>-c\<close>, as \<^verbatim>\<open>filter\<close>
  finds them, and the rest of the run from the listing of the cabinets on.\<close>

primrec matchingCabinets :: "'j runtime \<Rightarrow> js_value \<Rightarrow> cabinet list \<Rightarrow> js_error + cabinet list" where
  "matchingCabinets rt cabinetName [] = Inr []"
| "matchingCabinets rt cabinetName (cabinet # cabinets) =
     (case looseEquals rt cabinetName (Name cabinet) of
        Inl e \<Rightarrow> Inl e
      | Inr matches \<Rightarrow>
          (case matchingCabinets rt cabinetName cabinets of
             Inl e \<Rightarrow> Inl e
           | Inr others \<Rightarrow> Inr (if matches then cabinet # others else others)))"

definition execute_cabinet ::
  "'j runtime \<Rightarrow> 'j helpers \<Rightarrow> args \<Rightarrow> js_value \<Rightarrow> js_value \<Rightarrow> string \<Rightarrow> js_value Globals_of \<Rightarrow>
   'j event list \<Rightarrow> 'j run" where
  "execute_cabinet rt h args mode cabinetName cabinetId' g evs =
     attempt (looseEquals rt mode ''upload'') g evs None
       (\<lambda>uploading.
          if uploading then execute_upload rt h args cabinetId' g evs
          else execute_documents rt h args mode cabinetName cabinetId' g evs)"

definition execute_cabinets ::
  "'j runtime \<Rightarrow> 'j helpers \<Rightarrow> args \<Rightarrow> js_value \<Rightarrow> js_value Globals_of \<Rightarrow> 'j event list \<Rightarrow> 'j run" where
  "execute_cabinets rt h args mode g evs0 =
     (let evs = evs0 @ [Called_getFileCabinets ''1'']
      in await (getFileCabinets h ''1'') g evs None
           (\<lambda>cabinets.
              attempt (looseEquals rt mode ''lscabinets'') g evs None
                (\<lambda>listing.
                   if listing then
                     (case cabinets of
                        None \<Rightarrow> finish Unhandled g evs None
                      | Some listed \<Rightarrow>
                          finish Returned g
                            (evs @ map (\<lambda>cabinet. Log (Name cabinet @ '': '' @ Id cabinet)) listed)
                            None)
                   else
                     (let cabinetName = args ''c''
                      in if \<not> truthy cabinetName then
                           finish Returned g (evs @ [Log ''-c cabinet name not defined.'']) None
                         else
                           (case cabinets of
                              None \<Rightarrow> finish Unhandled g evs None
                            | Some listed \<Rightarrow>
                                attempt (matchingCabinets rt cabinetName listed) g evs None
                                  (\<lambda>matching.
                                     case matching of
                                       [] \<Rightarrow>
                                         attempt (ToString rt cabinetName) g evs None
                                           (\<lambda>cabinetText.
                                              finish Returned g
                                                (evs @ [Log (''No matching cabinet(s) for '' @
                                                             quoted cabinetText @ ''.'')])
                                                None)
                                     | first # others \<Rightarrow>
                                         if others \<noteq> [] then
                                           attempt (ToString rt cabinetName) g evs None
                                             (\<lambda>cabinetText.
                                                execute_cabinet rt h args mode cabinetName (Id first) g
                                                  (evs @ [Log (''WARNING: There are multiple cabinets with the name '' @
                                                               quoted cabinetText @ '', using the first one.'')]))
                                         else
                                           execute_cabinet rt h args mode cabinetName (Id first) g evs))))))"

text \<open>
  \<^verbatim>\<open>execute\<close> itself, started with the globals \<open>g\<close>.  The flag \<^verbatim>\<open>-e\<close> is
  stored in \<^verbatim>\<open>GLOBALS.endpoint\<close> before it is tested.
\<close>

definition execute :: "'j runtime \<Rightarrow> 'j helpers \<Rightarrow> args \<Rightarrow> js_value Globals_of \<Rightarrow> 'j run" where
  "execute rt h args g0 =
     (case retryOverrides rt args g0 of
        Inl (e, g) \<Rightarrow> finish Unhandled g [] None
      | Inr g1 \<Rightarrow>
     (let mode = args ''m''
      in if \<not> truthy mode then finish Returned g1 [Log ''-m mode not defined.''] None
         else
     (let endpoint' = args ''e'';
          g2 = g1\<lparr>endpoint := endpoint'\<rparr>
      in if \<not> truthy endpoint' then finish Returned g2 [Log ''-e endpoint not defined.''] None
         else
           attempt (looseEquals rt mode ''gencookie'') g2 [] None
             (\<lambda>cookieMode.
                if cookieMode then execute_gencookie h args g2 endpoint'
                else
                  attempt (looseEquals rt mode ''gentoken'') g2 [] None
                    (\<lambda>tokenMode.
                       if tokenMode then execute_gentoken h args g2 endpoint'
                       else
                         (let cookie' = args ''x'';
                              token = args ''t''
                          in if \<not> truthy token \<and> \<not> truthy cookie' then
                               finish Returned g2 [Log ''neither token -t nor cookie -c defined.''] None
                             else if truthy token \<and> truthy cookie' then
                               finish Returned g2
                                 [Log ''both cookie and token were provided... using existing cookie.'']
                                 None
                             else if truthy token \<and> \<not> truthy cookie' then
                               await (initAuthFromToken h token endpoint') g2
                                 [Called_initAuthFromToken token endpoint'] None
                                 (\<lambda>tokenCookie.
                                    execute_cabinets rt h args mode (g2\<lparr>cookie := JString tokenCookie\<rparr>)
                                      [Called_initAuthFromToken token endpoint'])
                             else execute_cabinets rt h args mode (g2\<lparr>cookie := cookie'\<rparr>) []))))))"

text \<open>
  A command line to run the dispatcher on, from the flags it gives; the record
  \<^verbatim>\<open>GLOBALS\<close> as the dispatcher finds it; helpers every one of which throws,
  until a field is replaced by something else; and a runtime whose
  \<^verbatim>\<open>JSON.parse\<close> accepts what begins with a brace, and which is asked for no
  other conversion.
\<close>

definition flags :: "(string \<times> js_value) list \<Rightarrow> args" where
  "flags given key = (case map_of given key of None \<Rightarrow> JUndefined | Some v \<Rightarrow> v)"

definition stored :: "Globals \<Rightarrow> js_value Globals_of" where
  "stored g =
     \<lparr>endpoint = JString (endpoint g), cookie = JString (cookie g),
      retryMaxCount = retryMaxCount g,
      retryDelayBaseInSeconds = retryDelayBaseInSeconds g,
      retryDelayRandomMinInSeconds = retryDelayRandomMinInSeconds g,
      retryDelayRandomMaxInSeconds = retryDelayRandomMaxInSeconds g\<rparr>"

definition throwingHelpers :: "'j helpers" where
  "throwingHelpers =
     \<lparr>initAuthFromCreds = (\<lambda>username password hostID endpoint'. Thrown),
      generateToken = (\<lambda>username password hostID endpoint'. Thrown),
      initAuthFromToken = (\<lambda>token endpoint'. Thrown),
      getFileCabinets = (\<lambda>orgId. Thrown),
      uploadDocument = (\<lambda>fileCabinetId filePath. Thrown),
      getDocument_of = (\<lambda>cabinetId id'. Thrown),
      getDocumentsWithQuery_of = (\<lambda>cabinetId downloadQueryStr. Thrown),
      getDocumentsWithFunction = (\<lambda>cabinetId downloadFunctionStr. Thrown),
      getAllDocumentsFromCabinet_of = (\<lambda>fileCabinetId. Thrown),
      updateDocument = (\<lambda>fileCabinetId documentId jsonFields. Thrown),
      downloadDocument = (\<lambda>fileCabinetId documentId. Thrown)\<rparr>"

definition braceRuntime :: "string runtime" where
  "braceRuntime =
     \<lparr>toNumber = (\<lambda>s. None),
      numberToString = (\<lambda>n. ''...''),
      toPrimitive = (\<lambda>v. Inr ''...''),
      JSON_parse = (\<lambda>s. if take 1 s = ''{'' then Some s else None),
      JSON_stringify = (\<lambda>documents. ''[...]''),
      path_join = (\<lambda>folder file. folder @ ''/'' @ file)\<rparr>"

text \<open>
  Vocabulary for the mode \<^verbatim>\<open>update\<close>: a list of events without a call of
  \<^verbatim>\<open>updateDocument\<close>; the three messages the mode prints before it gives up;
  a flag that is a string or falsy, so that \<^verbatim>\<open>replace\<close> can be called on
  \<^verbatim>\<open>args['u'] || ''\<close>; and what a run does that has fetched several documents:
  it never calls \<^verbatim>\<open>updateDocument\<close>; with such a flag \<^verbatim>\<open>-u\<close> it returns
  after printing one of the three messages, that of the guard on the number of
  documents when \<^verbatim>\<open>-u\<close> holds JSON; with any other flag \<^verbatim>\<open>-u\<close> it throws
  right after the documents have been fetched.
\<close>

definition noUpdate :: "'j event list \<Rightarrow> bool" where
  "noUpdate evs = (\<forall>c i j. Called_updateDocument c i j \<notin> set evs)"

definition guardMessages :: "string set" where
  "guardMessages =
     {''-u update json not defined.'',
      ''-u is not valid json (remember to use single quotes).'',
      ''Multiple matching documents found, tighten the fitler function.''}"

definition textOrFalsy :: "js_value \<Rightarrow> bool" where
  "textOrFalsy v = (case v of JString s \<Rightarrow> True | _ \<Rightarrow> \<not> truthy v)"

definition haltsBeforeUpdate :: "'j runtime \<Rightarrow> args \<Rightarrow> 'j run \<Rightarrow> bool" where
  "haltsBeforeUpdate rt args r \<longleftrightarrow>
     noUpdate (events r) \<and>
     (textOrFalsy (args ''u'') \<longrightarrow>
        ending r = Returned \<and>
        (\<exists>msg. events r \<noteq> [] \<and> last (events r) = Log msg \<and> msg \<in> guardMessages) \<and>
        (\<forall>u json. args ''u'' = JString u \<and> u \<noteq> [] \<and> JSON_parse rt (doubleQuotes u) = Some json \<longrightarrow>
           last (events r) = Log ''Multiple matching documents found, tighten the fitler function.'')) \<and>
     (\<not> textOrFalsy (args ''u'') \<longrightarrow>
        ending r = Unhandled \<and> events r \<noteq> [] \<and>
        last (events r) = Log ''Completed document fetching.'')"
section \<open>Properties of the retry wrapper\<close>

declare requestLoop.simps [simp del]

lemma requestLoop_nonOk:
  assumes "of_nat i < retryMaxCount g" and "nonOk (axios cfg i)"
  shows "requestLoop g cfg axios random exhausted i =
    (fst (requestLoop g cfg axios random exhausted (Suc i)),
     attemptEvents g cfg random i @ snd (requestLoop g cfg axios random exhausted (Suc i)))"
  using assms
  by (subst requestLoop.simps)
     (auto simp: nonOk_def attemptEvents_def split: outcome.splits prod.splits)

lemma requestLoop_ok:
  assumes "of_nat i < retryMaxCount g" and "axios cfg i = Response 200 body"
  shows "requestLoop g cfg axios random exhausted i = (Data body, [Axios i cfg])"
  using assms by (subst requestLoop.simps) simp

lemma requestLoop_throws:
  assumes "of_nat i < retryMaxCount g" and "axios cfg i = Throws ex"
  shows "requestLoop g cfg axios random exhausted i = (Null, [Axios i cfg, Console_log i ex])"
  using assms by (subst requestLoop.simps) simp

lemma requestLoop_done:
  assumes "\<not> of_nat i < retryMaxCount g"
  shows "requestLoop g cfg axios random exhausted i = (exhausted, [])"
  using assms by (subst requestLoop.simps) simp

lemma requestLoop_prefix:
  assumes "i \<le> k" and "\<forall>l. i \<le> l \<and> l < k \<longrightarrow> of_nat l < retryMaxCount g \<and> nonOk (axios cfg l)"
  shows "requestLoop g cfg axios random exhausted i =
    (fst (requestLoop g cfg axios random exhausted k),
     concat (map (attemptEvents g cfg random) [i..<k]) @
       snd (requestLoop g cfg axios random exhausted k))"
  using assms
proof (induction "k - i" arbitrary: i)
  case 0
  then show ?case by simp
next
  case (Suc d)
  then have lt: "i < k" and step: "of_nat i < retryMaxCount g" "nonOk (axios cfg i)"
    by auto
  have "d = k - Suc i" using Suc.hyps(2) by simp
  moreover have "Suc i \<le> k" using lt by simp
  moreover have "\<forall>l. Suc i \<le> l \<and> l < k \<longrightarrow> of_nat l < retryMaxCount g \<and> nonOk (axios cfg l)"
    using Suc.prems(2) by simp
  ultimately have IH: "requestLoop g cfg axios random exhausted (Suc i) =
    (fst (requestLoop g cfg axios random exhausted k),
     concat (map (attemptEvents g cfg random) [Suc i..<k]) @
       snd (requestLoop g cfg axios random exhausted k))"
    by (rule Suc.hyps(1))
  show ?case
    by (simp add: requestLoop_nonOk [where axios = axios and cfg = cfg, OF step] IH upt_conv_Cons [OF lt])
qed

lemma of_nat_less_mono_rat: "l \<le> k \<Longrightarrow> of_nat k < (m :: rat) \<Longrightarrow> of_nat l < m"
  by (meson le_less_trans of_nat_le_iff)

lemma all_from_Suc:
  "i < j \<Longrightarrow> (\<forall>l. i \<le> l \<and> l < j \<longrightarrow> P l) \<longleftrightarrow> P i \<and> (\<forall>l. Suc i \<le> l \<and> l < j \<longrightarrow> P l)"
  by (metis Suc_leD Suc_le_eq le_neq_implies_less order_refl)

lemma Axios_in_requestLoop:
  "Axios j c \<in> set (snd (requestLoop g cfg axios random exhausted i)) \<longleftrightarrow>
     c = cfg \<and> i \<le> j \<and> of_nat j < retryMaxCount g \<and>
     (\<forall>l. i \<le> l \<and> l < j \<longrightarrow> nonOk (axios cfg l))"
proof (induction g cfg axios random exhausted i rule: requestLoop.induct)
  case (1 g cfg axios random exhausted i)
  show ?case
  proof (cases "of_nat i < retryMaxCount g")
    case False
    then have "\<not> (i \<le> j \<and> of_nat j < retryMaxCount g)"
      using of_nat_less_mono_rat by blast
    with False show ?thesis
      by (simp add: requestLoop_done)
  next
    case True
    show ?thesis
    proof (cases "nonOk (axios cfg i)")
      case False
      then have ev: "Axios j c \<in> set (snd (requestLoop g cfg axios random exhausted i)) \<longleftrightarrow>
          c = cfg \<and> j = i"
        using True
        by (subst requestLoop.simps) (auto simp: nonOk_def split: outcome.splits)
      have "i < j \<Longrightarrow> \<not> (\<forall>l. i \<le> l \<and> l < j \<longrightarrow> nonOk (axios cfg l))"
        using False by blast
      then show ?thesis
        unfolding ev using True by (cases "i = j") auto
    next
      case nok: True
      then obtain status body where resp: "axios cfg i = Response status body" "status \<noteq> 200"
        by (auto simp: nonOk_def split: outcome.splits)
      note IH = "1.IH" [OF True resp]
      show ?thesis
      proof (cases "i < j")
        case lt: True
        then show ?thesis
          using nok
          by (simp add: requestLoop_nonOk [where axios = axios and cfg = cfg, OF True nok]
              attemptEvents_def IH all_from_Suc [OF lt] Suc_le_eq)
      next
        case False
        then show ?thesis
          using True
          by (auto simp: requestLoop_nonOk [where axios = axios and cfg = cfg, OF True nok]
              attemptEvents_def IH)
      qed
    qed
  qed
qed

lemma Delay_in_requestLoop:
  "Delay j d \<in> set (snd (requestLoop g cfg axios random exhausted i)) \<longleftrightarrow>
     d = delaySeconds g (random j) \<and> i \<le> j \<and> of_nat j < retryMaxCount g \<and>
     (\<forall>l. i \<le> l \<and> l < Suc j \<longrightarrow> nonOk (axios cfg l))"
proof (induction g cfg axios random exhausted i rule: requestLoop.induct)
  case (1 g cfg axios random exhausted i)
  show ?case
  proof (cases "of_nat i < retryMaxCount g")
    case False
    then have "\<not> (i \<le> j \<and> of_nat j < retryMaxCount g)"
      using of_nat_less_mono_rat by blast
    with False show ?thesis
      by (simp add: requestLoop_done)
  next
    case True
    show ?thesis
    proof (cases "nonOk (axios cfg i)")
      case False
      then have ev: "Delay j d \<notin> set (snd (requestLoop g cfg axios random exhausted i))"
        using True
        by (subst requestLoop.simps) (auto simp: nonOk_def split: outcome.splits)
      have "i \<le> j \<Longrightarrow> \<not> (\<forall>l. i \<le> l \<and> l < Suc j \<longrightarrow> nonOk (axios cfg l))"
        using False by auto
      then show ?thesis
        using ev by auto
    next
      case nok: True
      then obtain status body where resp: "axios cfg i = Response status body" "status \<noteq> 200"
        by (auto simp: nonOk_def split: outcome.splits)
      note IH = "1.IH" [OF True resp]
      have lt: "i < Suc j" if "i \<le> j" using that by simp
      show ?thesis
      proof (cases "i < j")
        case True
        then have "i < Suc j" by simp
        from all_from_Suc [OF this] True show ?thesis
          using nok
          by (simp add: requestLoop_nonOk [where axios = axios and cfg = cfg, OF \<open>of_nat i < retryMaxCount g\<close> nok]
              attemptEvents_def IH Suc_le_eq)
      next
        case False
        then show ?thesis
          using True nok
          by (auto simp: requestLoop_nonOk [where axios = axios and cfg = cfg, OF True nok]
              attemptEvents_def IH less_Suc_eq_le)
      qed
    qed
  qed
qed

lemma Data_from_requestLoop:
  assumes "\<forall>b. exhausted \<noteq> Data b"
  shows "fst (requestLoop g cfg axios random exhausted i) = Data body \<longleftrightarrow>
     (\<exists>k. i \<le> k \<and> of_nat k < retryMaxCount g \<and> axios cfg k = Response 200 body \<and>
        (\<forall>l. i \<le> l \<and> l < k \<longrightarrow> nonOk (axios cfg l)))"
  using assms
proof (induction g cfg axios random exhausted i rule: requestLoop.induct)
  case (1 g cfg axios random exhausted i)
  let ?R = "\<lambda>i. \<exists>k. i \<le> k \<and> of_nat k < retryMaxCount g \<and> axios cfg k = Response 200 body \<and>
        (\<forall>l. i \<le> l \<and> l < k \<longrightarrow> nonOk (axios cfg l))"
  show ?case
  proof (cases "of_nat i < retryMaxCount g")
    case False
    then have "\<not> ?R i"
      using of_nat_less_mono_rat by blast
    with False "1.prems" show ?thesis
      by (simp add: requestLoop_done)
  next
    case True
    show ?thesis
    proof (cases "nonOk (axios cfg i)")
      case False
      have later: "\<not> (i < k \<and> (\<forall>l. i \<le> l \<and> l < k \<longrightarrow> nonOk (axios cfg l)))" for k
        using False by blast
      have "?R i \<longleftrightarrow> axios cfg i = Response 200 body"
      proof
        assume "?R i"
        then obtain k where k: "i \<le> k" "axios cfg k = Response 200 body"
          "\<forall>l. i \<le> l \<and> l < k \<longrightarrow> nonOk (axios cfg l)" by blast
        with later [of k] have "k = i" by auto
        with k show "axios cfg i = Response 200 body" by simp
      next
        assume "axios cfg i = Response 200 body"
        with True show "?R i" by (intro exI [of _ i]) auto
      qed
      moreover have "fst (requestLoop g cfg axios random exhausted i) = Data body \<longleftrightarrow>
          axios cfg i = Response 200 body"
        using True False
        by (subst requestLoop.simps) (auto simp: nonOk_def split: outcome.splits)
      ultimately show ?thesis by simp
    next
      case nok: True
      then obtain status b where resp: "axios cfg i = Response status b" "status \<noteq> 200"
        by (auto simp: nonOk_def split: outcome.splits)
      note IH = "1.IH" [OF True resp "1.prems"]
      have "?R i \<longleftrightarrow> ?R (Suc i)"
      proof
        assume "?R i"
        then obtain k where k: "i \<le> k" "of_nat k < retryMaxCount g"
          "axios cfg k = Response 200 body"
          "\<forall>l. i \<le> l \<and> l < k \<longrightarrow> nonOk (axios cfg l)" by blast
        from k(3) resp have "k \<noteq> i" by auto
        with k(1) have "Suc i \<le> k" by simp
        with k show "?R (Suc i)" by (intro exI [of _ k]) simp
      next
        assume "?R (Suc i)"
        then obtain k where k: "Suc i \<le> k" "of_nat k < retryMaxCount g"
          "axios cfg k = Response 200 body"
          "\<forall>l. Suc i \<le> l \<and> l < k \<longrightarrow> nonOk (axios cfg l)" by blast
        have "\<forall>l. i \<le> l \<and> l < k \<longrightarrow> nonOk (axios cfg l)"
          using k(4) nok by (metis Suc_leI le_neq_implies_less)
        with k show "?R i" by (intro exI [of _ k]) simp
      qed
      then show ?thesis
        by (simp add: requestLoop_nonOk [where axios = axios and cfg = cfg, OF True nok] IH)
    qed
  qed
qed

lemma requestLoop_exhausted:
  assumes "\<forall>j. of_nat j < retryMaxCount g \<longrightarrow> nonOk (axios cfg j)"
  shows "fst (requestLoop g cfg axios random exhausted 0) = exhausted"
proof -
  let ?n = "nat \<lceil>retryMaxCount g\<rceil>"
  have below: "of_nat l < retryMaxCount g" if "l < ?n" for l
  proof -
    from that have "int l < \<lceil>retryMaxCount g\<rceil>" by simp
    then have "of_int (int l) < retryMaxCount g" by (simp only: less_ceiling_iff)
    then show ?thesis by simp
  qed
  have "\<not> of_nat ?n < retryMaxCount g"
  proof
    assume "of_nat ?n < retryMaxCount g"
    then have "of_int (int ?n) < retryMaxCount g" by simp
    then have "int ?n < \<lceil>retryMaxCount g\<rceil>" by (simp only: less_ceiling_iff)
    moreover have "\<lceil>retryMaxCount g\<rceil> \<le> int ?n" by (simp add: nat_le_iff [symmetric])
    ultimately show False by linarith
  qed
  then have stop: "requestLoop g cfg axios random exhausted ?n = (exhausted, [])"
    by (rule requestLoop_done)
  have "requestLoop g cfg axios random exhausted 0 =
    (fst (requestLoop g cfg axios random exhausted ?n),
     concat (map (attemptEvents g cfg random) [0..<?n]) @
       snd (requestLoop g cfg axios random exhausted ?n))"
    by (rule requestLoop_prefix) (use assms below in auto)
  then show ?thesis by (simp add: stop)
qed

text \<open>
  Claim C4.  Whatever the responses are, both wrappers return the body of the
  first response with status 200, provided it arrives in an attempt whose
  counter is below \<^verbatim>\<open>retryMaxCount\<close> and every earlier attempt was answered
  with another status; when every attempt below \<^verbatim>\<open>retryMaxCount\<close> is
  answered with a status other than 200, \<^verbatim>\<open>getRequest\<close> returns
  \<^verbatim>\<open>undefined\<close> and \<^verbatim>\<open>postRequest\<close> returns \<^verbatim>\<open>null\<close>.
\<close>

theorem retry_first_200_or_nothing:
  fixes axios :: "'b axios_config \<Rightarrow> nat \<Rightarrow> ('e, 'a) outcome"
  shows
  "(\<forall>k body. of_nat k < retryMaxCount g \<and>
        axios (getConfig g url responseType) k = Response 200 body \<and>
        (\<forall>j<k. nonOk (axios (getConfig g url responseType) j)) \<longrightarrow>
      fst (getRequest g axios random url responseType) = Data body) \<and>
   ((\<forall>j. of_nat j < retryMaxCount g \<longrightarrow> nonOk (axios (getConfig g url responseType) j)) \<longrightarrow>
      fst (getRequest g axios random url responseType) = Undefined) \<and>
   (\<forall>k body. of_nat k < retryMaxCount g \<and>
        axios (postConfig g url payload contentType) k = Response 200 body \<and>
        (\<forall>j<k. nonOk (axios (postConfig g url payload contentType) j)) \<longrightarrow>
      fst (postRequest g axios random url payload contentType) = Data body) \<and>
   ((\<forall>j. of_nat j < retryMaxCount g \<longrightarrow> nonOk (axios (postConfig g url payload contentType) j)) \<longrightarrow>
      fst (postRequest g axios random url payload contentType) = Null)"
proof -
  have first: "fst (requestLoop g cfg axios random exhausted 0) = Data body"
    if "of_nat k < retryMaxCount g" "axios cfg k = Response 200 body"
      "\<forall>j<k. nonOk (axios cfg j)"
    for cfg exhausted k body
  proof -
    have "\<forall>l. 0 \<le> l \<and> l < k \<longrightarrow> of_nat l < retryMaxCount g \<and> nonOk (axios cfg l)"
      using that(1,3) of_nat_less_mono_rat [of _ k] by (metis less_imp_le_nat)
    then have "requestLoop g cfg axios random exhausted 0 =
      (fst (requestLoop g cfg axios random exhausted k),
       concat (map (attemptEvents g cfg random) [0..<k]) @
         snd (requestLoop g cfg axios random exhausted k))"
      by (intro requestLoop_prefix) simp_all
    then show ?thesis
      by (simp add: requestLoop_ok [where axios = axios and cfg = cfg, OF that(1,2)])
  qed
  show ?thesis
    unfolding getRequest_def postRequest_def
    using first requestLoop_exhausted [where axios = axios and g = g]
    by blast
qed


theorem retry_first_200_or_nothing_witness:
  "fst (getRequest GLOBALS
          (\<lambda>(cfg :: unit axios_config) i. if i < 3 then Response 503 ''busy'' else Response 200 ''body'')
          (\<lambda>i. 0) ''docs'' None :: string js_result \<times> (unit, unit) http_event list) = Data ''body'' \<and>
   fst (getRequest (GLOBALS\<lparr>retryMaxCount := 2\<rparr>)
          (\<lambda>(cfg :: unit axios_config) i. Response 503 ''busy'')
          (\<lambda>i. 0) ''docs'' None :: string js_result \<times> (unit, unit) http_event list) = Undefined \<and>
   fst (postRequest GLOBALS
          (\<lambda>(cfg :: unit axios_config) i. if i < 3 then Response 503 ''busy'' else Response 200 ''body'')
          (\<lambda>i. 0) ''docs'' () None :: string js_result \<times> (unit, unit) http_event list) = Data ''body'' \<and>
   fst (postRequest (GLOBALS\<lparr>retryMaxCount := 2\<rparr>)
          (\<lambda>(cfg :: unit axios_config) i. Response 503 ''busy'')
          (\<lambda>i. 0) ''docs'' () None :: string js_result \<times> (unit, unit) http_event list) = Null"
proof -
  let ?ok = "\<lambda>(cfg :: unit axios_config) (i :: nat).
    if i < 3 then Response 503 ''busy'' else (Response 200 ''body'' :: (unit, string) outcome)"
  let ?busy = "\<lambda>(cfg :: unit axios_config) (i :: nat). (Response 503 ''busy'' :: (unit, string) outcome)"
  let ?g = "GLOBALS\<lparr>retryMaxCount := 2\<rparr>"
  note ok = retry_first_200_or_nothing [where g = GLOBALS and axios = ?ok and url = "''docs''"
      and responseType = None and random = "\<lambda>i. 0" and payload = "()" and contentType = None]
  note busy = retry_first_200_or_nothing [where g = ?g and axios = ?busy and url = "''docs''"
      and responseType = None and random = "\<lambda>i. 0" and payload = "()" and contentType = None]
  have 1: "fst (getRequest GLOBALS ?ok (\<lambda>i. 0) ''docs'' None
      :: string js_result \<times> (unit, unit) http_event list) = Data ''body''"
    by (rule ok [THEN conjunct1, rule_format, of 3]) (simp_all add: GLOBALS_def nonOk_def)
  have 2: "fst (getRequest ?g ?busy (\<lambda>i. 0) ''docs'' None
      :: string js_result \<times> (unit, unit) http_event list) = Undefined"
    by (rule busy [THEN conjunct2, THEN conjunct1, rule_format]) (simp add: nonOk_def)
  have 3: "fst (postRequest GLOBALS ?ok (\<lambda>i. 0) ''docs'' () None
      :: string js_result \<times> (unit, unit) http_event list) = Data ''body''"
    by (rule ok [THEN conjunct2, THEN conjunct2, THEN conjunct1, rule_format, of 3])
      (simp_all add: GLOBALS_def nonOk_def)
  have 4: "fst (postRequest ?g ?busy (\<lambda>i. 0) ''docs'' () None
      :: string js_result \<times> (unit, unit) http_event list) = Null"
    by (rule busy [THEN conjunct2, THEN conjunct2, THEN conjunct2, rule_format])
      (simp add: nonOk_def)
  from 1 2 3 4 show ?thesis by simp
qed


text \<open>
  Claim C9.  When the HTTP call of an attempt throws, the wrapper logs the
  exception and returns \<^verbatim>\<open>null\<close> from that very attempt: the run consists
  of the earlier attempts (each a request answered with a status other than 200
  and followed by its delay), the request that threw and the log entry, and
  nothing after it.  This holds for \<^verbatim>\<open>getRequest\<close> and for
  \<^verbatim>\<open>postRequest\<close>.
\<close>

theorem transport_exception_returns_null_at_once:
  fixes axios :: "'b axios_config \<Rightarrow> nat \<Rightarrow> ('e, 'a) outcome"
  shows
  "(\<forall>k ex. of_nat k < retryMaxCount g \<and>
        axios (getConfig g url responseType) k = Throws ex \<and>
        (\<forall>j<k. nonOk (axios (getConfig g url responseType) j)) \<longrightarrow>
      getRequest g axios random url responseType =
        (Null, concat (map (attemptEvents g (getConfig g url responseType) random) [0..<k]) @
               [Axios k (getConfig g url responseType), Console_log k ex])) \<and>
   (\<forall>k ex. of_nat k < retryMaxCount g \<and>
        axios (postConfig g url payload contentType) k = Throws ex \<and>
        (\<forall>j<k. nonOk (axios (postConfig g url payload contentType) j)) \<longrightarrow>
      postRequest g axios random url payload contentType =
        (Null, concat (map (attemptEvents g (postConfig g url payload contentType) random) [0..<k]) @
               [Axios k (postConfig g url payload contentType), Console_log k ex]))"
proof -
  have thrown: "requestLoop g cfg axios random exhausted 0 =
      (Null, concat (map (attemptEvents g cfg random) [0..<k]) @ [Axios k cfg, Console_log k ex])"
    if "of_nat k < retryMaxCount g" "axios cfg k = Throws ex" "\<forall>j<k. nonOk (axios cfg j)"
    for cfg exhausted k ex
  proof -
    have "\<forall>l. 0 \<le> l \<and> l < k \<longrightarrow> of_nat l < retryMaxCount g \<and> nonOk (axios cfg l)"
      using that(1,3) of_nat_less_mono_rat [of _ k] by (metis less_imp_le_nat)
    then have "requestLoop g cfg axios random exhausted 0 =
      (fst (requestLoop g cfg axios random exhausted k),
       concat (map (attemptEvents g cfg random) [0..<k]) @
         snd (requestLoop g cfg axios random exhausted k))"
      by (intro requestLoop_prefix) simp_all
    then show ?thesis
      by (simp add: requestLoop_throws [where axios = axios and cfg = cfg, OF that(1,2)])
  qed
  show ?thesis
    unfolding getRequest_def postRequest_def using thrown by blast
qed

theorem transport_exception_returns_null_at_once_witness:
  "getRequest GLOBALS
      (\<lambda>(cfg :: unit axios_config) i. if i < 1 then Response 503 ''busy'' else Throws ''ECONNRESET'')
      (\<lambda>i. 0) ''docs'' None =
    (Null :: string js_result,
     [Axios 0 (getConfig GLOBALS ''docs'' None), Delay 0 10,
      Axios 1 (getConfig GLOBALS ''docs'' None), Console_log 1 ''ECONNRESET'']) \<and>
   postRequest GLOBALS
      (\<lambda>(cfg :: unit axios_config) i. if i < 1 then Response 503 ''busy'' else Throws ''ECONNRESET'')
      (\<lambda>i. 0) ''docs'' () None =
    (Null :: string js_result,
     [Axios 0 (postConfig GLOBALS ''docs'' () None), Delay 0 10,
      Axios 1 (postConfig GLOBALS ''docs'' () None), Console_log 1 ''ECONNRESET''])"
proof -
  let ?ax = "\<lambda>(cfg :: unit axios_config) (i :: nat).
    if i < 1 then Response 503 ''busy'' else (Throws ''ECONNRESET'' :: (string, string) outcome)"
  note inst = transport_exception_returns_null_at_once [where g = GLOBALS and axios = ?ax
      and url = "''docs''" and responseType = None and random = "\<lambda>i. 0" and payload = "()"
      and contentType = None]
  have 1: "getRequest GLOBALS ?ax (\<lambda>i. 0) ''docs'' None =
    (Null, concat (map (attemptEvents GLOBALS (getConfig GLOBALS ''docs'' None) (\<lambda>i. 0)) [0..<1]) @
      [Axios 1 (getConfig GLOBALS ''docs'' None), Console_log 1 ''ECONNRESET''])"
    by (rule inst [THEN conjunct1, rule_format, of 1]) (simp_all add: GLOBALS_def nonOk_def)
  have 2: "postRequest GLOBALS ?ax (\<lambda>i. 0) ''docs'' () None =
    (Null, concat (map (attemptEvents GLOBALS (postConfig GLOBALS ''docs'' () None) (\<lambda>i. 0)) [0..<1]) @
      [Axios 1 (postConfig GLOBALS ''docs'' () None), Console_log 1 ''ECONNRESET''])"
    by (rule inst [THEN conjunct2, rule_format, of 1]) (simp_all add: GLOBALS_def nonOk_def)
  have d: "delaySeconds GLOBALS 0 = 10" by (simp add: delaySeconds_def GLOBALS_def)
  from 1 2 show ?thesis by (simp add: attemptEvents_def d)
qed

text \<open>
  Claim C2, as amended.  In both wrappers the first attempt is made when
  \<^verbatim>\<open>retryMaxCount\<close> is positive; a further attempt is made exactly when the
  attempt before it was answered with a status other than 200 and the counter is
  still below \<^verbatim>\<open>retryMaxCount\<close>; a delay is waited after exactly the attempts
  answered with a status other than 200; and a body is returned exactly when an
  attempt was answered with status 200.  A status of the 2xx class other than
  200 therefore leads to a delay and a further attempt like any other status.
\<close>

theorem only_status_200_ends_the_retries:
  fixes axios :: "'b axios_config \<Rightarrow> nat \<Rightarrow> ('e, 'a) outcome"
  shows
  "(let cfg = getConfig g url responseType;
        run = getRequest g axios random url responseType
    in (Axios 0 cfg \<in> set (snd run) \<longleftrightarrow> 0 < retryMaxCount g) \<and>
       (\<forall>j. Axios (Suc j) cfg \<in> set (snd run) \<longleftrightarrow>
          Axios j cfg \<in> set (snd run) \<and> nonOk (axios cfg j) \<and> of_nat (Suc j) < retryMaxCount g) \<and>
       (\<forall>j d. Delay j d \<in> set (snd run) \<longleftrightarrow>
          Axios j cfg \<in> set (snd run) \<and> nonOk (axios cfg j) \<and> d = delaySeconds g (random j)) \<and>
       (\<forall>body. fst run = Data body \<longleftrightarrow>
          (\<exists>j. Axios j cfg \<in> set (snd run) \<and> axios cfg j = Response 200 body))) \<and>
   (let cfg = postConfig g url payload contentType;
        run = postRequest g axios random url payload contentType
    in (Axios 0 cfg \<in> set (snd run) \<longleftrightarrow> 0 < retryMaxCount g) \<and>
       (\<forall>j. Axios (Suc j) cfg \<in> set (snd run) \<longleftrightarrow>
          Axios j cfg \<in> set (snd run) \<and> nonOk (axios cfg j) \<and> of_nat (Suc j) < retryMaxCount g) \<and>
       (\<forall>j d. Delay j d \<in> set (snd run) \<longleftrightarrow>
          Axios j cfg \<in> set (snd run) \<and> nonOk (axios cfg j) \<and> d = delaySeconds g (random j)) \<and>
       (\<forall>body. fst run = Data body \<longleftrightarrow>
          (\<exists>j. Axios j cfg \<in> set (snd run) \<and> axios cfg j = Response 200 body)))"
proof -
  have loop: "(Axios 0 cfg \<in> set (snd run) \<longleftrightarrow> 0 < retryMaxCount g) \<and>
       (\<forall>j. Axios (Suc j) cfg \<in> set (snd run) \<longleftrightarrow>
          Axios j cfg \<in> set (snd run) \<and> nonOk (axios cfg j) \<and> of_nat (Suc j) < retryMaxCount g) \<and>
       (\<forall>j d. Delay j d \<in> set (snd run) \<longleftrightarrow>
          Axios j cfg \<in> set (snd run) \<and> nonOk (axios cfg j) \<and> d = delaySeconds g (random j)) \<and>
       (\<forall>body. fst run = Data body \<longleftrightarrow>
          (\<exists>j. Axios j cfg \<in> set (snd run) \<and> axios cfg j = Response 200 body))"
    if run: "run = requestLoop g cfg axios random exhausted 0" and ex: "\<forall>b. exhausted \<noteq> Data b"
    for cfg exhausted run
  proof (intro conjI allI)
    show "Axios 0 cfg \<in> set (snd run) \<longleftrightarrow> 0 < retryMaxCount g"
      unfolding run Axios_in_requestLoop by simp
  next
    fix j
    have "(\<forall>l. l < Suc j \<longrightarrow> nonOk (axios cfg l)) \<longleftrightarrow>
        (\<forall>l. l < j \<longrightarrow> nonOk (axios cfg l)) \<and> nonOk (axios cfg j)"
      by (auto simp: less_Suc_eq)
    moreover have "of_nat (Suc j) < retryMaxCount g \<Longrightarrow> of_nat j < retryMaxCount g"
      by (rule of_nat_less_mono_rat [of j "Suc j"]) simp_all
    ultimately show "Axios (Suc j) cfg \<in> set (snd run) \<longleftrightarrow>
          Axios j cfg \<in> set (snd run) \<and> nonOk (axios cfg j) \<and> of_nat (Suc j) < retryMaxCount g"
      unfolding run Axios_in_requestLoop by auto
  next
    fix j d
    have "(\<forall>l. l < Suc j \<longrightarrow> nonOk (axios cfg l)) \<longleftrightarrow>
        (\<forall>l. l < j \<longrightarrow> nonOk (axios cfg l)) \<and> nonOk (axios cfg j)"
      by (auto simp: less_Suc_eq)
    then show "Delay j d \<in> set (snd run) \<longleftrightarrow>
          Axios j cfg \<in> set (snd run) \<and> nonOk (axios cfg j) \<and> d = delaySeconds g (random j)"
      unfolding run Axios_in_requestLoop Delay_in_requestLoop by auto
  next
    fix body
    show "fst run = Data body \<longleftrightarrow>
          (\<exists>j. Axios j cfg \<in> set (snd run) \<and> axios cfg j = Response 200 body)"
      unfolding run Axios_in_requestLoop Data_from_requestLoop [OF ex] by auto
  qed
  have u: "\<forall>b. (Undefined :: 'a js_result) \<noteq> Data b" and n: "\<forall>b. (Null :: 'a js_result) \<noteq> Data b"
    by simp_all
  note G = loop [where exhausted = Undefined and cfg = "getConfig g url responseType", OF refl u]
  note P = loop [where exhausted = Null and cfg = "postConfig g url payload contentType", OF refl n]
  show ?thesis
    unfolding Let_def getRequest_def postRequest_def
    by (rule conjI [OF G P])
qed


text \<open>
  The claim as first stated excludes a retry after any 2xx status.  Status 204
  is of that class, and a wrapper that receives 204 and then 200 waits and sends
  its request a second time.
\<close>

theorem status_204_is_retried_counterexample:
  "(200 \<le> (204 :: int) \<and> (204 :: int) < 300) \<and>
   getRequest GLOBALS
      (\<lambda>(cfg :: unit axios_config) i. if i < 1 then Response 204 ''first'' else Response 200 ''second'')
      (\<lambda>i. 0) ''docs'' None =
    (Data ''second'',
     [Axios 0 (getConfig GLOBALS ''docs'' None), Delay 0 10,
      Axios 1 (getConfig GLOBALS ''docs'' None) :: (unit, unit) http_event]) \<and>
   postRequest GLOBALS
      (\<lambda>(cfg :: unit axios_config) i. if i < 1 then Response 204 ''first'' else Response 200 ''second'')
      (\<lambda>i. 0) ''docs'' () None =
    (Data ''second'',
     [Axios 0 (postConfig GLOBALS ''docs'' () None), Delay 0 10,
      Axios 1 (postConfig GLOBALS ''docs'' () None) :: (unit, unit) http_event])"
  by (simp add: getRequest_def postRequest_def requestLoop.simps GLOBALS_def delaySeconds_def)

theorem only_status_200_ends_the_retries_witness:
  "(let ax = (\<lambda>(cfg :: unit axios_config) i. if i < 1 then Response 204 ''first'' else Response 200 ''second'');
        run = getRequest GLOBALS ax (\<lambda>i. 0) ''docs'' None :: string js_result \<times> (unit, unit) http_event list
    in Axios 0 (getConfig GLOBALS ''docs'' None) \<in> set (snd run) \<and>
       Delay 0 10 \<in> set (snd run) \<and>
       Axios 1 (getConfig GLOBALS ''docs'' None) \<in> set (snd run) \<and>
       Axios 2 (getConfig GLOBALS ''docs'' None) \<notin> set (snd run) \<and>
       fst run = Data ''second'')"
proof -
  let ?ax = "\<lambda>(cfg :: unit axios_config) (i :: nat).
    if i < 1 then Response 204 ''first'' else (Response 200 ''second'' :: (unit, string) outcome)"
  let ?cfg = "getConfig GLOBALS ''docs'' None :: unit axios_config"
  let ?run = "getRequest GLOBALS ?ax (\<lambda>i. 0) ''docs'' None"
  note inst = only_status_200_ends_the_retries [where g = GLOBALS and axios = ?ax
      and url = "''docs''" and responseType = None and random = "\<lambda>i. 0" and payload = "()"
      and contentType = None, unfolded Let_def, THEN conjunct1]
  have d: "delaySeconds GLOBALS 0 = 10" by (simp add: delaySeconds_def GLOBALS_def)
  have a0: "Axios 0 ?cfg \<in> set (snd ?run)"
    using inst [THEN conjunct1] by (simp add: GLOBALS_def)
  have a1: "Axios 1 ?cfg \<in> set (snd ?run)"
    using inst [THEN conjunct2, THEN conjunct1, THEN spec, of 0] a0
    by (simp add: GLOBALS_def nonOk_def)
  have a2: "Axios 2 ?cfg \<notin> set (snd ?run)"
    using inst [THEN conjunct2, THEN conjunct1, THEN spec, of 1]
    by (simp add: nonOk_def numeral_2_eq_2)
  have d0: "Delay 0 10 \<in> set (snd ?run)"
    using inst [THEN conjunct2, THEN conjunct2, THEN conjunct1, THEN spec, THEN spec, of 0 10] a0
    by (simp add: nonOk_def d)
  have r: "fst ?run = Data ''second''"
    using inst [THEN conjunct2, THEN conjunct2, THEN conjunct2, THEN spec, of "''second''"] a1
    by auto
  from a0 a1 a2 d0 r show ?thesis by (simp add: Let_def)
qed


section \<open>Properties of the cookie formatting\<close>

lemma firstSeen_snoc:
  "firstSeen (xs @ [x]) = (if x \<in> set xs then firstSeen xs else firstSeen xs @ [x])"
  by (simp add: firstSeen_def)

lemma distinct_firstSeen: "distinct (firstSeen xs)"
  by (simp add: firstSeen_def)

lemma set_firstSeen: "set (firstSeen xs) = set xs"
  by (simp add: firstSeen_def)

lemma foldl_cookieMatch:
  "foldl (\<lambda>obj cookie. case cookieMatch cookie of
            Some (name, val) \<Rightarrow> setProperty obj name val | None \<Rightarrow> obj) acc hs =
   foldl (\<lambda>obj (name, val). setProperty obj name val) acc (List.map_filter cookieMatch hs)"
proof (induction hs arbitrary: acc)
  case Nil
  show ?case by (simp add: List.map_filter_simps)
next
  case (Cons h hs)
  show ?case
  proof (cases "cookieMatch h")
    case None
    then show ?thesis by (simp add: List.map_filter_simps Cons.IH)
  next
    case (Some p)
    then show ?thesis by (cases p) (simp add: List.map_filter_simps Cons.IH)
  qed
qed

lemma foldl_setProperty:
  assumes "\<forall>(n, v) \<in> set ps. n \<noteq> ''__proto__''"
  shows "map fst (foldl (\<lambda>obj (name, val). setProperty obj name val) [] ps) = firstSeen (map fst ps) \<and>
         map_of (foldl (\<lambda>obj (name, val). setProperty obj name val) [] ps) = map_of (rev ps)"
  using assms
proof (induction ps rule: rev_induct)
  case Nil
  show ?case by (simp add: firstSeen_def)
next
  case (snoc p ps)
  obtain n v where p: "p = (n, v)" by (cases p)
  let ?obj = "foldl (\<lambda>obj (name, val). setProperty obj name val) [] ps"
  from snoc.prems have n: "n \<noteq> ''__proto__''" and rest: "\<forall>(n, v) \<in> set ps. n \<noteq> ''__proto__''"
    by (auto simp: p)
  from snoc.IH [OF rest] have keys: "map fst ?obj = firstSeen (map fst ps)"
    and vals: "map_of ?obj = map_of (rev ps)" by simp_all
  have step: "foldl (\<lambda>obj (name, val). setProperty obj name val) [] (ps @ [p]) = AList.update n v ?obj"
    using n by (simp add: p setProperty_def)
  have "n \<in> set (map fst ?obj) \<longleftrightarrow> n \<in> set (map fst ps)"
    by (simp only: keys set_firstSeen)
  then have "map fst (AList.update n v ?obj) = firstSeen (map fst (ps @ [p]))"
    by (simp add: AList.update_keys keys p firstSeen_snoc del: set_map)
  moreover have "map_of (AList.update n v ?obj) = map_of (rev (ps @ [p]))"
    by (simp add: AList.update_conv' vals p)
  ultimately show ?case by (simp only: step)
qed

lemma Object_keys_plain:
  assumes "\<forall>k \<in> set (map fst obj). \<not> isArrayIndex k"
  shows "Object_keys obj = map fst obj"
proof -
  have "filter isArrayIndex (map fst obj) = []"
    using assms by (simp add: filter_empty_conv)
  moreover have "filter (\<lambda>key. \<not> isArrayIndex key) (map fst obj) = map fst obj"
    using assms by (simp add: filter_id_conv)
  ultimately show ?thesis
    unfolding Object_keys_def by simp
qed

lemma trim_last: "trim s \<noteq> [] \<Longrightarrow> \<not> isWhiteSpace (last (trim s))"
  unfolding trim_def
  by (simp add: last_rev hd_dropWhile)

lemma formatCookie_no_trailing_separator: "formatCookie hs \<noteq> t @ ''; ''"
proof
  assume eq: "formatCookie hs = t @ ''; ''"
  obtain j where j: "formatCookie hs = trim j"
    by (simp add: formatCookie_def)
  with eq have tr: "trim j = t @ ''; ''" by simp
  then have "trim j \<noteq> []" by simp
  from trim_last [OF this] have "\<not> isWhiteSpace (last (t @ ''; ''))"
    unfolding tr .
  moreover have "last (t @ ''; '') = CHR '' ''" by simp
  moreover have "isWhiteSpace CHR '' ''" by (simp add: isWhiteSpace_def)
  ultimately show False by simp
qed

lemma cookieObj_pairs:
  "cookieObj hs =
   foldl (\<lambda>obj (name, val). setProperty obj name val) [] (List.map_filter cookieMatch hs)"
  unfolding cookieObj_def by (rule foldl_cookieMatch)

text \<open>
  Claim C3, as amended.  For a list of \<^verbatim>\<open>Set-Cookie\<close> strings, consider the
  name/value pairs of those strings that match the pattern (a non-empty name, \<^verbatim>\<open>=\<close>,
  a non-empty value, \<^verbatim>\<open>;\<close>).  When none of the names is \<^verbatim>\<open>__proto__\<close> or
  an array index, \<^verbatim>\<open>formatCookie\<close> returns, trimmed of white space at both
  ends, the texts \<^verbatim>\<open>name=value\<close> joined by \<^verbatim>\<open>"; "\<close>, one for every distinct
  name, in the order in which the names are first seen, each name with the value
  of the last string that carries it.  The result never ends with the
  separator.
\<close>

theorem formatCookie_pairs:
  assumes "\<forall>(n, v) \<in> set (List.map_filter cookieMatch hs). n \<noteq> ''__proto__'' \<and> \<not> isArrayIndex n"
  shows "(\<exists>kvs. formatCookie hs = trim (join ''; '' (map (\<lambda>(n, v). n @ ''='' @ v) kvs)) \<and>
            map fst kvs = firstSeen (map fst (List.map_filter cookieMatch hs)) \<and>
            (\<forall>(n, v) \<in> set kvs. map_of (rev (List.map_filter cookieMatch hs)) n = Some v)) \<and>
         \<not> (\<exists>t. formatCookie hs = t @ ''; '')"
proof -
  let ?ps = "List.map_filter cookieMatch hs"
  have np: "\<forall>(n, v) \<in> set ?ps. n \<noteq> ''__proto__''"
    using assms by auto
  note obj = foldl_setProperty [OF np, folded cookieObj_pairs]
  have keys: "map fst (cookieObj hs) = firstSeen (map fst ?ps)" using obj by (rule conjunct1)
  have vals: "map_of (cookieObj hs) = map_of (rev ?ps)" using obj by (rule conjunct2)
  have dist: "distinct (map fst (cookieObj hs))" by (simp only: keys distinct_firstSeen)
  have "set (map fst (cookieObj hs)) = set (map fst ?ps)"
    by (simp only: keys set_firstSeen)
  then have "\<forall>k \<in> set (map fst (cookieObj hs)). \<not> isArrayIndex k"
    using assms by auto
  then have ok: "Object_keys (cookieObj hs) = map fst (cookieObj hs)" by (rule Object_keys_plain)
  have each: "fst p @ ''='' @ (case getProperty (cookieObj hs) (fst p) of
                  Some v \<Rightarrow> v | None \<Rightarrow> ''undefined'') = (case p of (n, v) \<Rightarrow> n @ ''='' @ v)"
    if "p \<in> set (cookieObj hs)" for p
  proof -
    obtain n v where p: "p = (n, v)" by (cases p)
    with that dist have "map_of (cookieObj hs) n = Some v" by simp
    then show ?thesis by (simp add: p getProperty_def)
  qed
  have "map (\<lambda>cookie. cookie @ ''='' @
            (case getProperty (cookieObj hs) cookie of Some v \<Rightarrow> v | None \<Rightarrow> ''undefined''))
          (map fst (cookieObj hs)) =
        map (\<lambda>(n, v). n @ ''='' @ v) (cookieObj hs)"
    unfolding map_map by (rule map_cong [OF refl]) (simp only: o_apply each)
  then have fmt: "formatCookie hs = trim (join ''; '' (map (\<lambda>(n, v). n @ ''='' @ v) (cookieObj hs)))"
    by (simp only: formatCookie_def ok)
  have last: "\<forall>(n, v) \<in> set (cookieObj hs). map_of (rev ?ps) n = Some v"
    using dist by (auto simp: vals [symmetric])
  have "\<exists>kvs. formatCookie hs = trim (join ''; '' (map (\<lambda>(n, v). n @ ''='' @ v) kvs)) \<and>
            map fst kvs = firstSeen (map fst ?ps) \<and>
            (\<forall>(n, v) \<in> set kvs. map_of (rev ?ps) n = Some v)"
    using fmt keys last by (intro exI [of _ "cookieObj hs"] conjI)
  moreover have "\<not> (\<exists>t. formatCookie hs = t @ ''; '')"
    using formatCookie_no_trailing_separator by blast
  ultimately show ?thesis by (rule conjI)
qed

text \<open>The pattern, read declaratively.\<close>

lemma cookieMatch_iff:
  "cookieMatch str = Some (name, val) \<longleftrightarrow>
     (\<exists>rest. str = name @ ''='' @ val @ '';'' @ rest \<and>
        name \<noteq> [] \<and> CHR ''='' \<notin> set name \<and> val \<noteq> [] \<and> CHR '';'' \<notin> set val)"
proof
  assume m: "cookieMatch str = Some (name, val)"
  let ?r = "dropWhile (\<lambda>c. c \<noteq> CHR ''='') str"
  let ?t = "dropWhile (\<lambda>c. c \<noteq> CHR '';'') (tl ?r)"
  from m have name: "name = takeWhile (\<lambda>c. c \<noteq> CHR ''='') str" and ne: "name \<noteq> []"
    and r: "?r \<noteq> []" and val: "val = takeWhile (\<lambda>c. c \<noteq> CHR '';'') (tl ?r)"
    and ve: "val \<noteq> []" and t: "?t \<noteq> []"
    by (auto simp: cookieMatch_def Let_def split: if_splits)
  from r have "hd ?r = CHR ''=''" using hd_dropWhile [of "\<lambda>c. c \<noteq> CHR ''=''" str] by simp
  with r have r': "?r = CHR ''='' # tl ?r" by (cases ?r) simp_all
  from t have "hd ?t = CHR '';''" using hd_dropWhile [of "\<lambda>c. c \<noteq> CHR '';''" "tl ?r"] by simp
  with t have t': "?t = CHR '';'' # tl ?t" by (cases ?t) simp_all
  have "str = name @ ?r" by (simp add: name)
  also have "\<dots> = name @ CHR ''='' # tl ?r" using r' by simp
  also have "tl ?r = val @ ?t" by (simp add: val)
  also have "?t = CHR '';'' # tl ?t" by (rule t')
  finally have "str = name @ ''='' @ val @ '';'' @ tl ?t" by simp
  moreover have "CHR ''='' \<notin> set name" unfolding name by (auto dest: set_takeWhileD)
  moreover have "CHR '';'' \<notin> set val" unfolding val by (auto dest: set_takeWhileD)
  ultimately show "\<exists>rest. str = name @ ''='' @ val @ '';'' @ rest \<and>
        name \<noteq> [] \<and> CHR ''='' \<notin> set name \<and> val \<noteq> [] \<and> CHR '';'' \<notin> set val"
    using ne ve by blast
next
  assume "\<exists>rest. str = name @ ''='' @ val @ '';'' @ rest \<and>
        name \<noteq> [] \<and> CHR ''='' \<notin> set name \<and> val \<noteq> [] \<and> CHR '';'' \<notin> set val"
  then obtain rest where str: "str = name @ CHR ''='' # val @ CHR '';'' # rest"
    and ne: "name \<noteq> []" and n: "CHR ''='' \<notin> set name"
    and ve: "val \<noteq> []" and v: "CHR '';'' \<notin> set val" by auto
  have 1: "takeWhile (\<lambda>c. c \<noteq> CHR ''='') str = name"
    unfolding str using n by (subst takeWhile_tail) auto
  have 2: "dropWhile (\<lambda>c. c \<noteq> CHR ''='') str = CHR ''='' # val @ CHR '';'' # rest"
    unfolding str using n by (subst dropWhile_append2) auto
  have 3: "takeWhile (\<lambda>c. c \<noteq> CHR '';'') (val @ CHR '';'' # rest) = val"
    using v by (subst takeWhile_tail) auto
  have 4: "dropWhile (\<lambda>c. c \<noteq> CHR '';'') (val @ CHR '';'' # rest) = CHR '';'' # rest"
    using v by (subst dropWhile_append2) auto
  show "cookieMatch str = Some (name, val)"
    using ne ve by (simp add: cookieMatch_def 1 2 3 4)
qed

theorem formatCookie_pairs_witness:
  "formatCookie [''sid=abc; Path=/'', ''lang=en; HttpOnly'', ''sid=xyz; Path=/'', ''broken''] =
     ''sid=xyz; lang=en''"
proof -
  let ?hs = "[''sid=abc; Path=/'', ''lang=en; HttpOnly'', ''sid=xyz; Path=/'', ''broken'']"
  have ps: "List.map_filter cookieMatch ?hs =
      [(''sid'', ''abc''), (''lang'', ''en''), (''sid'', ''xyz'')]"
    by (simp add: List.map_filter_simps cookieMatch_def)
  have hyp: "\<forall>(n, v) \<in> set (List.map_filter cookieMatch ?hs). n \<noteq> ''__proto__'' \<and> \<not> isArrayIndex n"
    unfolding ps by (simp add: isArrayIndex_def isDigit_def)
  from formatCookie_pairs [OF hyp] obtain kvs where
    f: "formatCookie ?hs = trim (join ''; '' (map (\<lambda>(n, v). n @ ''='' @ v) kvs))" and
    k: "map fst kvs = firstSeen (map fst (List.map_filter cookieMatch ?hs))" and
    v: "\<forall>(n, v) \<in> set kvs. map_of (rev (List.map_filter cookieMatch ?hs)) n = Some v"
    by blast
  from k have "map fst kvs = [''sid'', ''lang'']"
    unfolding ps by (simp add: firstSeen_def)
  then obtain a b where kvs: "kvs = [(''sid'', a), (''lang'', b)]"
    by (auto simp: map_eq_Cons_conv)
  from v have "a = ''xyz''" and "b = ''en''"
    unfolding ps kvs by simp_all
  then show ?thesis
    unfolding f kvs by (simp add: trim_def isWhiteSpace_def)
qed

text \<open>
  The claim as first stated promises every pair of the list, in first-seen
  order.  A repeated name keeps only its last value; a string without \<^verbatim>\<open>;\<close>
  after the value is skipped; a name that is an array index moves to the front;
  the name \<^verbatim>\<open>__proto__\<close> is lost; and white space at the ends of the result
  is trimmed away.
\<close>

theorem formatCookie_drops_pairs_counterexample:
  "formatCookie [''a=1; Path=/'', ''a=2; Path=/''] = ''a=2'' \<and>
   formatCookie [''a=1''] = '''' \<and>
   formatCookie [''b=1; Path=/'', ''7=2; Path=/''] = ''7=2; b=1'' \<and>
   formatCookie [''__proto__=x; Path=/''] = '''' \<and>
   formatCookie [''a= ; Path=/''] = ''a=''"
  by code_simp

section \<open>Properties of the query expression parser and of the query results\<close>

lemma split_char_nonempty: "split_char c s \<noteq> []"
  by (induction s) (auto split: list.splits)

lemma split_char_Cons:
  "split_char c (x # xs) =
     (if x = c then [] # split_char c xs
      else (x # hd (split_char c xs)) # tl (split_char c xs))"
  using split_char_nonempty [of c xs] by (cases "split_char c xs") simp_all

lemma split_char_without: "c \<notin> set w \<Longrightarrow> split_char c w = [w]"
  by (induction w) auto

lemma split_char_append:
  "split_char c (xs @ ys) =
     butlast (split_char c xs) @
     (last (split_char c xs) @ hd (split_char c ys)) # tl (split_char c ys)"
proof (induction xs)
  case Nil
  show ?case using split_char_nonempty [of c ys] by simp
next
  case (Cons x xs)
  let ?S = "split_char c xs"
  obtain s S' where S: "?S = s # S'"
    using split_char_nonempty [of c xs] by (cases ?S) auto
  show ?case
  proof (cases "S' = []")
    case True
    then show ?thesis using Cons.IH S by (simp add: split_char_Cons del: split_char.simps)
  next
    case False
    then show ?thesis using Cons.IH S by (simp add: split_char_Cons del: split_char.simps)
  qed
qed

lemma split_char_at_separator:
  "split_char c (xs @ c # ys) = split_char c xs @ split_char c ys"
  using split_char_nonempty [of c xs]
  by (simp add: split_char_append [of c xs "c # ys"])

lemma split_char_suffix:
  "c \<notin> set w \<Longrightarrow>
   split_char c (xs @ w) = butlast (split_char c xs) @ [last (split_char c xs) @ w]"
  by (simp add: split_char_append [of c xs w] split_char_without)

lemma split_char_prefix:
  "c \<notin> set w \<Longrightarrow>
   split_char c (w @ ys) = (w @ hd (split_char c ys)) # tl (split_char c ys)"
  by (simp add: split_char_append [of c w ys] split_char_without)

lemma trim_prefix:
  assumes "\<forall>c \<in> set w. isWhiteSpace c"
  shows "trim (w @ s) = trim s"
  using assms by (simp add: trim_def dropWhile_append2)

lemma trim_suffix:
  assumes "\<forall>c \<in> set w. isWhiteSpace c"
  shows "trim (s @ w) = trim s"
proof -
  have behind: "dropWhile isWhiteSpace (rev w @ t) = dropWhile isWhiteSpace t" for t
    by (rule dropWhile_append2) (use assms in auto)
  show ?thesis
  proof (cases "\<forall>c \<in> set s. isWhiteSpace c")
    case True
    with assms have 1: "dropWhile isWhiteSpace (s @ w) = []"
      by (auto simp: dropWhile_eq_Nil_conv)
    from True have 2: "dropWhile isWhiteSpace s = []"
      by (auto simp: dropWhile_eq_Nil_conv)
    show ?thesis unfolding trim_def 1 2 by simp
  next
    case False
    then obtain x where "x \<in> set s" "\<not> isWhiteSpace x" by blast
    then have "dropWhile isWhiteSpace (s @ w) = dropWhile isWhiteSpace s @ w"
      by (rule dropWhile_append1)
    then show ?thesis
      unfolding trim_def by (simp only: rev_append behind)
  qed
qed

lemma mapResult_cong_map: "map f xs = map f ys \<Longrightarrow> mapResult f xs = mapResult f ys"
proof (induction xs arbitrary: ys)
  case Nil
  then show ?case by simp
next
  case (Cons x xs)
  then obtain y ys' where ys: "ys = y # ys'" "f x = f y" "map f xs = map f ys'"
    by (cases ys) auto
  with Cons.IH [of ys'] show ?case by (simp split: sum.splits)
qed

lemma isWhiteSpace_separators: "\<not> isWhiteSpace CHR ''=''" "\<not> isWhiteSpace CHR ''|''"
  by (simp_all add: isWhiteSpace_def)

lemma parseCondition_whitespace:
  assumes "\<forall>c \<in> set (w1 @ w2). isWhiteSpace c"
  shows "parseCondition (a @ w1 @ ''='' @ w2 @ b) = parseCondition (a @ ''='' @ b)"
proof -
  have w1: "CHR ''='' \<notin> set w1" and w2: "CHR ''='' \<notin> set w2"
    using assms isWhiteSpace_separators by auto
  have ws1: "\<forall>c \<in> set w1. isWhiteSpace c" and ws2: "\<forall>c \<in> set w2. isWhiteSpace c"
    using assms by auto
  obtain As al where A: "split_char CHR ''='' a = As @ [al]"
    using split_char_nonempty [of "CHR ''=''" a]
    by (cases "split_char CHR ''='' a" rule: rev_cases) auto
  obtain bh Bt where B: "split_char CHR ''='' b = bh # Bt"
    using split_char_nonempty [of "CHR ''=''" b]
    by (cases "split_char CHR ''='' b") auto
  have s2: "split_char CHR ''='' (a @ w1) = As @ [al @ w1]"
    by (simp only: split_char_suffix [OF w1] A butlast_snoc last_snoc)
  have s3: "split_char CHR ''='' (w2 @ b) = (w2 @ bh) # Bt"
    by (simp only: split_char_prefix [OF w2] B list.sel)
  have "split_char CHR ''='' ((a @ w1) @ CHR ''='' # (w2 @ b)) = (As @ [al @ w1]) @ (w2 @ bh) # Bt"
    by (simp only: split_char_at_separator s2 s3)
  then have l: "map trim (split_char CHR ''='' (a @ w1 @ ''='' @ w2 @ b)) =
      map trim As @ trim al # trim bh # map trim Bt"
    by (simp add: trim_suffix [OF ws1] trim_prefix [OF ws2])
  have "split_char CHR ''='' (a @ CHR ''='' # b) = (As @ [al]) @ bh # Bt"
    by (simp only: split_char_at_separator A B)
  then have r: "map trim (split_char CHR ''='' (a @ ''='' @ b)) =
      map trim As @ trim al # trim bh # map trim Bt"
    by simp
  show ?thesis
    unfolding parseCondition_def l r ..
qed

lemma queryBody_whitespace:
  assumes "\<forall>c \<in> set (w1 @ w2). isWhiteSpace c"
  shows "queryBody (u @ w1 @ ''='' @ w2 @ v) = queryBody (u @ ''='' @ v)"
proof -
  let ?U = "split_char CHR ''|'' u" and ?V = "split_char CHR ''|'' v"
  have m: "CHR ''|'' \<notin> set (w1 @ ''='' @ w2)"
    using assms isWhiteSpace_separators by auto
  have e: "CHR ''|'' \<notin> set ''=''" by simp
  have "split_char CHR ''|'' (u @ (w1 @ ''='' @ w2) @ v) =
      butlast ?U @ (last ?U @ (w1 @ ''='' @ w2) @ hd ?V) # tl ?V"
    by (simp only: split_char_append [of _ u] split_char_prefix [OF m] list.sel)
  moreover have "split_char CHR ''|'' (u @ ''='' @ v) =
      butlast ?U @ (last ?U @ ''='' @ hd ?V) # tl ?V"
    by (simp only: split_char_append [of _ u] split_char_prefix [OF e] list.sel)
  moreover have "parseCondition (last ?U @ (w1 @ ''='' @ w2) @ hd ?V) =
      parseCondition (last ?U @ ''='' @ hd ?V)"
    using parseCondition_whitespace [OF assms, of "last ?U" "hd ?V"] by simp
  ultimately have "mapResult parseCondition (split_char CHR ''|'' (u @ w1 @ ''='' @ w2 @ v)) =
      mapResult parseCondition (split_char CHR ''|'' (u @ ''='' @ v))"
    by (intro mapResult_cong_map) simp
  then show ?thesis by (simp only: queryBody_def)
qed

text \<open>
  Claim C5.  The expression \<^verbatim>\<open>A = [1] | B = [2]\<close> is parsed to the two
  conditions \<^verbatim>\<open>{DBName: "A", Value: ["1"]}\<close> and \<^verbatim>\<open>{DBName: "B", Value: ["2"]}\<close>
  under the operation \<^verbatim>\<open>"Or"\<close>; and for every expression, white space put
  before or after a \<^verbatim>\<open>=\<close> changes nothing in what the parser returns.
\<close>

theorem query_parser_example_and_whitespace:
  "queryBody ''A = [1] | B = [2]'' =
     Inr \<lparr>Condition = [\<lparr>DBName = ''A'', Value = [''1'']\<rparr>, \<lparr>DBName = ''B'', Value = [''2'']\<rparr>],
          Operation = ''Or''\<rparr> \<and>
   (\<forall>u v w1 w2. (\<forall>c \<in> set (w1 @ w2). isWhiteSpace c) \<longrightarrow>
      queryBody (u @ w1 @ ''='' @ w2 @ v) = queryBody (u @ ''='' @ v))"
proof
  show "queryBody ''A = [1] | B = [2]'' =
     Inr \<lparr>Condition = [\<lparr>DBName = ''A'', Value = [''1'']\<rparr>, \<lparr>DBName = ''B'', Value = [''2'']\<rparr>],
          Operation = ''Or''\<rparr>"
    by code_simp
  show "\<forall>u v w1 w2. (\<forall>c \<in> set (w1 @ w2). isWhiteSpace c) \<longrightarrow>
      queryBody (u @ w1 @ ''='' @ w2 @ v) = queryBody (u @ ''='' @ v)"
    using queryBody_whitespace by blast
qed

theorem query_parser_example_and_whitespace_witness:
  "queryBody ''SERIAL_NO   =  [3080RC20119]'' = queryBody ''SERIAL_NO=[3080RC20119]'' \<and>
   queryBody ''SERIAL_NO=[3080RC20119]'' =
     Inr \<lparr>Condition = [\<lparr>DBName = ''SERIAL_NO'', Value = [''3080RC20119'']\<rparr>], Operation = ''Or''\<rparr>"
proof -
  have ws: "\<forall>c \<in> set (''   '' @ ''  ''). isWhiteSpace c"
    by (simp add: isWhiteSpace_def)
  have "queryBody (''SERIAL_NO'' @ ''   '' @ ''='' @ ''  '' @ ''[3080RC20119]'') =
      queryBody (''SERIAL_NO'' @ ''='' @ ''[3080RC20119]'')"
    by (rule query_parser_example_and_whitespace [THEN conjunct2, THEN spec, THEN spec, THEN spec,
          THEN spec, THEN mp, OF ws])
  moreover have "queryBody ''SERIAL_NO=[3080RC20119]'' =
     Inr \<lparr>Condition = [\<lparr>DBName = ''SERIAL_NO'', Value = [''3080RC20119'']\<rparr>], Operation = ''Or''\<rparr>"
    by code_simp
  ultimately show ?thesis by simp
qed

text \<open>
  Claim C7.  When the response fetched from the query link has a count of zero,
  \<^verbatim>\<open>getDocumentsWithQuery\<close> returns the empty list whatever \<^verbatim>\<open>Items\<close>
  is: an empty array and a missing one included, on which reading the first
  item's fields would throw.
\<close>

theorem empty_count_returns_before_items:
  assumes "queryBody downloadQueryStr = Inr jsonBody"
    and "postRequest'
           (''docuware/platform/FileCabinets/'' @ cabinetId @ ''/Query/DialogExpressionLink'')
           jsonBody (Some ''application/json'') = Data res"
    and "getRequest' (drop 1 res) = Data \<lparr>Count_Value = 0, Items = items\<rparr>"
  shows "getDocumentsWithQuery postRequest' getRequest' cabinetId downloadQueryStr = Inr []"
  using assms by (simp add: getDocumentsWithQuery_def)

theorem empty_count_returns_before_items_witness:
  "getDocumentsWithQuery (\<lambda>url body contentType. Data ''x/link'')
      (\<lambda>url. Data \<lparr>Count_Value = 0, Items = Some []\<rparr>) ''cab'' ''A = [1]'' = Inr [] \<and>
   getDocumentsWithQuery (\<lambda>url body contentType. Data ''x/link'')
      (\<lambda>url. Data \<lparr>Count_Value = 0, Items = None\<rparr>) ''cab'' ''A = [1]'' = Inr []"
proof -
  have q: "queryBody ''A = [1]'' =
      Inr \<lparr>Condition = [\<lparr>DBName = ''A'', Value = [''1'']\<rparr>], Operation = ''Or''\<rparr>"
    by code_simp
  show ?thesis
    by (intro conjI empty_count_returns_before_items [OF q]) simp_all
qed

text \<open>Without the guard the read does throw on an empty item list.\<close>

lemma nonzero_count_reads_first_item:
  assumes "queryBody downloadQueryStr = Inr jsonBody"
    and "postRequest'
           (''docuware/platform/FileCabinets/'' @ cabinetId @ ''/Query/DialogExpressionLink'')
           jsonBody (Some ''application/json'') = Data res"
    and "getRequest' (drop 1 res) = Data \<lparr>Count_Value = n, Items = Some []\<rparr>"
    and "n \<noteq> 0"
  shows "getDocumentsWithQuery postRequest' getRequest' cabinetId downloadQueryStr = Inl TypeError"
  using assms by (simp add: getDocumentsWithQuery_def)

section \<open>Properties of the retrieval of one document\<close>

lemma setProperty_proto: "setProperty obj ''__proto__'' v = obj"
  by (simp add: setProperty_def)

lemma foldl_setProperty_proto:
  "foldl (\<lambda>obj (name, val). setProperty obj name val) acc ps =
   foldl (\<lambda>obj (name, val). setProperty obj name val) acc
     (filter (\<lambda>(name, val). name \<noteq> ''__proto__'') ps)"
proof (induction ps arbitrary: acc)
  case Nil
  show ?case by simp
next
  case (Cons p ps)
  obtain n v where p: "p = (n, v)" by (cases p)
  show ?case
    by (cases "n = ''__proto__''") (simp_all add: p Cons.IH setProperty_proto)
qed

lemma map_of_filter_key:
  "P name \<Longrightarrow> map_of (filter (\<lambda>(k, v). P k) xs) name = map_of xs name"
  by (induction xs) auto

lemma map_of_map_find:
  "map_of (map (\<lambda>f. (key f, val f)) xs) name = map_option val (find (\<lambda>f. key f = name) xs)"
  by (induction xs) auto

lemma own_properties_after_assignments:
  fixes val :: "'f \<Rightarrow> 'v"
  assumes "name \<noteq> ''__proto__''"
  shows "getProperty (foldl (\<lambda>obj f. setProperty obj (key f) (val f)) [] fs) name =
         map_option val (find (\<lambda>f. key f = name) (rev fs))"
proof -
  let ?ps = "map (\<lambda>f. (key f, val f)) fs"
  let ?keep = "\<lambda>(n :: string, v :: 'v). n \<noteq> ''__proto__''"
  have keep: "\<forall>(n, v) \<in> set (filter ?keep ?ps). n \<noteq> ''__proto__''"
    by auto
  have "foldl (\<lambda>obj f. setProperty obj (key f) (val f)) [] fs =
      foldl (\<lambda>obj (name, val). setProperty obj name val) [] ?ps"
    by (simp add: foldl_map)
  also have "\<dots> = foldl (\<lambda>obj (name, val). setProperty obj name val) [] (filter ?keep ?ps)"
    by (rule foldl_setProperty_proto)
  finally have "map_of (foldl (\<lambda>obj f. setProperty obj (key f) (val f)) [] fs) =
      map_of (rev (filter ?keep ?ps))"
    by (simp only: foldl_setProperty [OF keep, THEN conjunct2])
  then have "getProperty (foldl (\<lambda>obj f. setProperty obj (key f) (val f)) [] fs) name =
      map_of (filter ?keep (rev ?ps)) name"
    by (simp only: getProperty_def rev_filter)
  also have "\<dots> = map_of (rev ?ps) name"
    using assms by (rule map_of_filter_key [where P = "\<lambda>n. n \<noteq> ''__proto__''"])
  also have "\<dots> = map_of (map (\<lambda>f. (key f, val f)) (rev fs)) name"
    by (simp only: rev_map)
  also have "\<dots> = map_option val (find (\<lambda>f. key f = name) (rev fs))"
    by (rule map_of_map_find)
  finally show ?thesis .
qed

text \<open>
  Claim C10, as amended.  When the request for the document returns a body,
  \<^verbatim>\<open>getDocument\<close> returns a record whose row has, under every name other than
  \<^verbatim>\<open>__proto__\<close>, the item of the last listed field of that name, or the empty
  string when that item is falsy (absent, \<^verbatim>\<open>null\<close>, \<^verbatim>\<open>false\<close>, zero or
  empty).  So a field with a falsy item is mapped to the empty string when no
  later field of the same name replaces it, and every listed name other than
  \<^verbatim>\<open>__proto__\<close> is mapped to a defined value: a truthy one or the empty
  string.
\<close>

theorem getDocument_row:
  assumes "getRequest' (''docuware/platform/FileCabinets/'' @ cabinetId @ ''/Documents/'' @ id') = Data d"
  shows "\<exists>row. getDocument getRequest' cabinetId id' =
             Inr \<lparr>doc_id = JString id', doc_cabinetId = cabinetId, doc_row = row\<rparr> \<and>
           (\<forall>name. name \<noteq> ''__proto__'' \<longrightarrow>
              getProperty row name =
                map_option (\<lambda>f. if truthy (Item f) then Item f else JString '''')
                  (find (\<lambda>f. FieldName f = name) (rev (Fields d)))) \<and>
           (\<forall>f. find (\<lambda>f'. FieldName f' = FieldName f) (rev (Fields d)) = Some f \<and>
                FieldName f \<noteq> ''__proto__'' \<and> \<not> truthy (Item f) \<longrightarrow>
              getProperty row (FieldName f) = Some (JString '''')) \<and>
           (\<forall>f \<in> set (Fields d). FieldName f \<noteq> ''__proto__'' \<longrightarrow>
              (\<exists>v. getProperty row (FieldName f) = Some v \<and> (truthy v \<or> v = JString '''')))"
proof -
  let ?val = "\<lambda>f :: field. if truthy (Item f) then Item f else JString ''''"
  let ?row = "foldl (\<lambda>obj f. setProperty obj (FieldName f) (?val f)) [] (Fields d)"
  have result: "getDocument getRequest' cabinetId id' =
      Inr \<lparr>doc_id = JString id', doc_cabinetId = cabinetId, doc_row = ?row\<rparr>"
    using assms by (simp add: getDocument_def)
  have own: "getProperty ?row name =
      map_option ?val (find (\<lambda>f. FieldName f = name) (rev (Fields d)))"
    if "name \<noteq> ''__proto__''" for name
    using that by (rule own_properties_after_assignments)
  have falsy: "getProperty ?row (FieldName f) = Some (JString '''')"
    if "find (\<lambda>f'. FieldName f' = FieldName f) (rev (Fields d)) = Some f"
      "FieldName f \<noteq> ''__proto__''" "\<not> truthy (Item f)" for f
    using that by (simp add: own)
  have listed: "\<exists>v. getProperty ?row (FieldName f) = Some v \<and> (truthy v \<or> v = JString '''')"
    if "f \<in> set (Fields d)" "FieldName f \<noteq> ''__proto__''" for f
  proof -
    from that(1) have "\<exists>g. find (\<lambda>f'. FieldName f' = FieldName f) (rev (Fields d)) = Some g"
      by (cases "find (\<lambda>f'. FieldName f' = FieldName f) (rev (Fields d))")
         (auto simp: find_None_iff)
    then obtain g where "find (\<lambda>f'. FieldName f' = FieldName f) (rev (Fields d)) = Some g" ..
    with that(2) show ?thesis by (simp add: own)
  qed
  from result own falsy listed show ?thesis by blast
qed

theorem getDocument_row_witness:
  "\<exists>row. getDocument
        (\<lambda>url. Data \<lparr>Fields = [\<lparr>FieldName = ''A'', Item = JNull\<rparr>,
                                \<lparr>FieldName = ''B'', Item = JNumber 0\<rparr>,
                                \<lparr>FieldName = ''C'', Item = JString ''x''\<rparr>]\<rparr>)
        ''cab'' ''7'' =
      Inr \<lparr>doc_id = JString ''7'', doc_cabinetId = ''cab'', doc_row = row\<rparr> \<and>
    getProperty row ''A'' = Some (JString '''') \<and>
    getProperty row ''B'' = Some (JString '''') \<and>
    getProperty row ''C'' = Some (JString ''x'')"
proof -
  let ?d = "\<lparr>Fields = [\<lparr>FieldName = ''A'', Item = JNull\<rparr>,
                        \<lparr>FieldName = ''B'', Item = JNumber 0\<rparr>,
                        \<lparr>FieldName = ''C'', Item = JString ''x''\<rparr>]\<rparr>"
  have "(\<lambda>url. Data ?d) (''docuware/platform/FileCabinets/'' @ ''cab'' @ ''/Documents/'' @ ''7'') = Data ?d"
    by simp
  from getDocument_row [of "\<lambda>url. Data ?d" "''cab''" "''7''" ?d, OF this]
  obtain row where
    r: "getDocument (\<lambda>url. Data ?d) ''cab'' ''7'' =
         Inr \<lparr>doc_id = JString ''7'', doc_cabinetId = ''cab'', doc_row = row\<rparr>" and
    own: "\<forall>name. name \<noteq> ''__proto__'' \<longrightarrow>
              getProperty row name =
                map_option (\<lambda>f. if truthy (Item f) then Item f else JString '''')
                  (find (\<lambda>f. FieldName f = name) (rev (Fields ?d)))"
    by blast
  from own have "getProperty row ''A'' = Some (JString '''')"
    and "getProperty row ''B'' = Some (JString '''')"
    and "getProperty row ''C'' = Some (JString ''x'')"
    by simp_all
  with r show ?thesis by blast
qed

text \<open>
  The claim as first stated maps every field with a falsy item to the empty
  string.  A field whose name is listed again is overwritten by the later
  field, and a field named \<^verbatim>\<open>__proto__\<close> leaves no property in the row.
\<close>

theorem getDocument_later_field_wins_counterexample:
  "getDocument
      (\<lambda>url. Data \<lparr>Fields = [\<lparr>FieldName = ''A'', Item = JNull\<rparr>,
                              \<lparr>FieldName = ''A'', Item = JString ''x''\<rparr>]\<rparr>)
      ''cab'' ''7'' =
    Inr \<lparr>doc_id = JString ''7'', doc_cabinetId = ''cab'', doc_row = [(''A'', JString ''x'')]\<rparr> \<and>
   getDocument
      (\<lambda>url. Data \<lparr>Fields = [\<lparr>FieldName = ''__proto__'', Item = JNull\<rparr>]\<rparr>)
      ''cab'' ''7'' =
    Inr \<lparr>doc_id = JString ''7'', doc_cabinetId = ''cab'', doc_row = []\<rparr>"
  by (simp add: getDocument_def setProperty_def)

section \<open>Properties of the pagination\<close>

lemma documentsLoop_stop:
  assumes "getRequest' (documentsUrl fileCabinetId start) = Data page" and "rowsOf page = []"
  shows "documentsLoop getRequest' fileCabinetId start documents headers requested =
    Some (Inr documents, requested @ [documentsUrl fileCabinetId start])"
  using assms
  by (subst documentsLoop.simps) (simp add: rowsOf_def split: option.splits list.splits)

lemma documentsLoop_step:
  assumes "getRequest' (documentsUrl fileCabinetId start) = Data page" and "rowsOf page \<noteq> []"
  shows "documentsLoop getRequest' fileCabinetId start documents headers requested =
    documentsLoop getRequest' fileCabinetId (start + batchRequestCount)
      (documents @
       map (\<lambda>row. documentOf
                     (case headers of None \<Rightarrow> map FieldName (Headers page) | Some names \<Rightarrow> names)
                     fileCabinetId (row_Items row))
         (rowsOf page))
      (Some (case headers of None \<Rightarrow> map FieldName (Headers page) | Some names \<Rightarrow> names))
      (requested @ [documentsUrl fileCabinetId start])"
  using assms
  by (subst documentsLoop.simps) (simp add: rowsOf_def split: option.splits list.splits)

lemma documentsLoop_fails:
  assumes "getRequest' (documentsUrl fileCabinetId start) = Null \<or>
           getRequest' (documentsUrl fileCabinetId start) = Undefined"
  shows "documentsLoop getRequest' fileCabinetId start documents headers requested =
    Some (Inl TypeError, requested @ [documentsUrl fileCabinetId start])"
  using assms
  by (subst documentsLoop.simps) auto

lemma documentsLoop_run:
  assumes "\<forall>j. i \<le> j \<and> j \<le> k \<longrightarrow>
             getRequest' (documentsUrl fileCabinetId (batchRequestCount * j)) = Data (page j)"
    and "\<forall>j. i \<le> j \<and> j < k \<longrightarrow> rowsOf (page j) \<noteq> []"
    and "rowsOf (page k) = []"
    and "i \<le> k"
    and "names = (case headers of None \<Rightarrow> map FieldName (Headers (page i)) | Some h \<Rightarrow> h)"
  shows "documentsLoop getRequest' fileCabinetId (batchRequestCount * i) documents headers requested =
    Some (Inr (documents @
               map (\<lambda>row. documentOf names fileCabinetId (row_Items row))
                 (concat (map (\<lambda>j. rowsOf (page j)) [i..<k]))),
          requested @ map (\<lambda>j. documentsUrl fileCabinetId (batchRequestCount * j)) [i..<Suc k])"
  using assms
proof (induction "k - i" arbitrary: i documents headers requested)
  case 0
  then have "i = k" by simp
  with "0.prems" show ?case
    by (simp add: documentsLoop_stop [where getRequest' = getRequest' and page = "page k"])
next
  case (Suc n)
  then have lt: "i < k" by simp
  from Suc.prems(1) lt have got: "getRequest' (documentsUrl fileCabinetId (batchRequestCount * i)) = Data (page i)"
    by simp
  from Suc.prems(2) lt have rows: "rowsOf (page i) \<noteq> []" by simp
  have next_start: "batchRequestCount * i + batchRequestCount = batchRequestCount * Suc i"
    by simp
  have "documentsLoop getRequest' fileCabinetId (batchRequestCount * Suc i)
      (documents @ map (\<lambda>row. documentOf names fileCabinetId (row_Items row)) (rowsOf (page i)))
      (Some names)
      (requested @ [documentsUrl fileCabinetId (batchRequestCount * i)]) =
    Some (Inr ((documents @ map (\<lambda>row. documentOf names fileCabinetId (row_Items row)) (rowsOf (page i))) @
               map (\<lambda>row. documentOf names fileCabinetId (row_Items row))
                 (concat (map (\<lambda>j. rowsOf (page j)) [Suc i..<k]))),
          (requested @ [documentsUrl fileCabinetId (batchRequestCount * i)]) @
            map (\<lambda>j. documentsUrl fileCabinetId (batchRequestCount * j)) [Suc i..<Suc k])"
  proof (rule Suc.hyps(1))
    show "n = k - Suc i" using Suc.hyps(2) by simp
    show "\<forall>j. Suc i \<le> j \<and> j \<le> k \<longrightarrow>
             getRequest' (documentsUrl fileCabinetId (batchRequestCount * j)) = Data (page j)"
      using Suc.prems(1) by simp
    show "\<forall>j. Suc i \<le> j \<and> j < k \<longrightarrow> rowsOf (page j) \<noteq> []"
      using Suc.prems(2) by simp
    show "rowsOf (page k) = []" by (rule Suc.prems(3))
    show "Suc i \<le> k" using lt by simp
    show "names = (case Some names of None \<Rightarrow> map FieldName (Headers (page (Suc i))) | Some h \<Rightarrow> h)"
      by simp
  qed
  moreover have "[i..<k] = i # [Suc i..<k]" and "[i..<Suc k] = i # [Suc i..<Suc k]"
    using lt by (simp_all add: upt_conv_Cons)
  ultimately show ?case
    unfolding documentsLoop_step [where getRequest' = getRequest' and page = "page i", OF got rows]
      next_start Suc.prems(5) [symmetric]
    by simp
qed

lemma getAllDocumentsFromCabinet_run:
  assumes "\<forall>j\<le>k. getRequest' (documentsUrl fileCabinetId (batchRequestCount * j)) = Data (page j)"
    and "\<forall>j<k. rowsOf (page j) \<noteq> []"
    and "rowsOf (page k) = []"
  shows "getAllDocumentsFromCabinet getRequest' fileCabinetId =
    Some (Inr (map (\<lambda>row. documentOf (map FieldName (Headers (page 0))) fileCabinetId (row_Items row))
                 (concat (map (\<lambda>j. rowsOf (page j)) [0..<k]))),
          map (\<lambda>j. documentsUrl fileCabinetId (batchRequestCount * j)) [0..<Suc k])"
proof -
  have "documentsLoop getRequest' fileCabinetId (batchRequestCount * 0) [] None [] =
    Some (Inr ([] @ map (\<lambda>row. documentOf (map FieldName (Headers (page 0))) fileCabinetId (row_Items row))
                 (concat (map (\<lambda>j. rowsOf (page j)) [0..<k]))),
          [] @ map (\<lambda>j. documentsUrl fileCabinetId (batchRequestCount * j)) [0..<Suc k])"
    by (rule documentsLoop_run [where page = page]) (use assms in simp_all)
  then show ?thesis
    by (simp add: getAllDocumentsFromCabinet_def)
qed

text \<open>The loop ends nowhere else: a call that returns has met, at some window,
  an answer that is no page with rows.  Against a service whose every window
  has rows the call never returns.\<close>

lemma documentsLoop_returns_after_empty_page:
  assumes "documentsLoop getRequest' fileCabinetId start documents headers requested = Some r"
  shows "\<exists>n. \<forall>page. getRequest' (documentsUrl fileCabinetId (start + batchRequestCount * n)) = Data page
           \<longrightarrow> rowsOf page = []"
proof (rule documentsLoop.raw_induct [where P = "\<lambda>getRequest' fileCabinetId start documents headers requested r.
    \<exists>n. \<forall>page. getRequest' (documentsUrl fileCabinetId (start + batchRequestCount * n)) = Data page
           \<longrightarrow> rowsOf page = []", OF _ assms], goal_cases)
  case (1 documentsLoop' getRequest' fileCabinetId start documents headers requested r)
  show ?case
  proof (cases "getRequest' (documentsUrl fileCabinetId start)")
    case (Data page)
    show ?thesis
    proof (cases "rowsOf page")
      case Nil
      with Data have "\<forall>page. getRequest' (documentsUrl fileCabinetId (start + batchRequestCount * 0)) = Data page
           \<longrightarrow> rowsOf page = []"
        by simp
      then show ?thesis by blast
    next
      case (Cons row rows')
      then have some: "Rows page = Some (row # rows')"
        by (cases "Rows page") (simp_all add: rowsOf_def)
      from 1(2) obtain documents' headers' requested' where
        "documentsLoop' getRequest' fileCabinetId (start + batchRequestCount) documents' headers' requested' = Some r"
        by (simp add: Data some)
      from 1(1) [OF this] obtain n where
        "\<forall>page. getRequest' (documentsUrl fileCabinetId (start + batchRequestCount + batchRequestCount * n)) = Data page
           \<longrightarrow> rowsOf page = []"
        by blast
      then have "\<forall>page. getRequest' (documentsUrl fileCabinetId (start + batchRequestCount * Suc n)) = Data page
           \<longrightarrow> rowsOf page = []"
        by (simp add: add.assoc)
      then show ?thesis by blast
    qed
  next
    case Null
    then have "\<forall>page. getRequest' (documentsUrl fileCabinetId (start + batchRequestCount * 0)) = Data page
           \<longrightarrow> rowsOf page = []"
      by simp
    then show ?thesis by blast
  next
    case Undefined
    then have "\<forall>page. getRequest' (documentsUrl fileCabinetId (start + batchRequestCount * 0)) = Data page
           \<longrightarrow> rowsOf page = []"
      by simp
    then show ?thesis by blast
  qed
qed

lemma getAllDocumentsFromCabinet_never_returns:
  assumes "\<And>j. \<exists>page. getRequest' (documentsUrl fileCabinetId (batchRequestCount * j)) = Data page \<and>
             rowsOf page \<noteq> []"
  shows "getAllDocumentsFromCabinet getRequest' fileCabinetId = None"
proof (rule ccontr)
  assume "getAllDocumentsFromCabinet getRequest' fileCabinetId \<noteq> None"
  then obtain r where "documentsLoop getRequest' fileCabinetId 0 [] None [] = Some r"
    by (auto simp: getAllDocumentsFromCabinet_def)
  from documentsLoop_returns_after_empty_page [OF this] obtain n where
    "\<forall>page. getRequest' (documentsUrl fileCabinetId (batchRequestCount * n)) = Data page
           \<longrightarrow> rowsOf page = []"
    by auto
  with assms [of n] show False by auto
qed

lemma numberedRows_nonempty: "0 < n \<Longrightarrow> numberedRows a n \<noteq> []"
  by (simp add: numberedRows_def)

lemma length_numberedRows: "length (numberedRows a n) = n"
  by (simp add: numberedRows_def)

lemma doc_id_numbered:
  "doc_id (documentOf [''DWDOCID''] fileCabinetId [v]) = v"
  by (simp add: documentOf_def fieldsMapOf_def headerKey_def setProperty_def getProperty_def)

lemma ids_numberedRows:
  "map doc_id (map (\<lambda>row. documentOf [''DWDOCID''] fileCabinetId (row_Items row)) (numberedRows a n)) =
   map (\<lambda>i. JNumber (of_nat i)) [a..<a + n]"
  by (simp add: numberedRows_def doc_id_numbered o_def)

lemma distinct_ids_numberedRows:
  "distinct (map doc_id (map (\<lambda>row. documentOf [''DWDOCID''] fileCabinetId (row_Items row))
      (numberedRows a n @ numberedRows (a + n) m)))"
proof -
  have "[a..<a + n + m] = [a..<a + n] @ [a + n..<a + n + m]"
    by (rule upt_add_eq_append) simp
  then have "[a..<a + n] @ [a + n..<a + n + m] = [a..<a + n + m]"
    by (rule sym)
  moreover have "distinct (map (\<lambda>i. JNumber (of_nat i)) [a..<a + n + m])"
    by (simp add: distinct_map inj_on_def)
  ultimately have "distinct (map (\<lambda>i. JNumber (of_nat i)) [a..<a + n] @
      map (\<lambda>i. JNumber (of_nat i)) [a + n..<a + n + m])"
    by (simp only: map_append [symmetric])
  then show ?thesis
    by (simp only: map_append ids_numberedRows)
qed

lemma repeated_id_numberedRows:
  assumes "a \<le> c" and "c < a + n" and "0 < m"
  shows "\<not> distinct (map doc_id (map (\<lambda>row. documentOf [''DWDOCID''] fileCabinetId (row_Items row))
      (numberedRows a n @ numberedRows c m)))"
proof -
  have "JNumber (of_nat c) \<in> set (map (\<lambda>i. JNumber (of_nat i)) [a..<a + n])"
    using assms by simp
  moreover have "JNumber (of_nat c) \<in> set (map (\<lambda>i. JNumber (of_nat i)) [c..<c + m])"
    using assms by simp
  ultimately show ?thesis
    by (simp only: map_append ids_numberedRows distinct_append) blast
qed

text \<open>
  Claim C6, as amended.  Let the service answer the windows that start at
  \<open>0\<close>, \<open>1000\<close>, \<dots>, \<open>1000 * k\<close> (each of \<open>1000\<close> rows) with pages of which
  the first \<open>k\<close> have rows and the last has none, its \<^verbatim>\<open>Rows\<close> empty or
  missing.  Then \<^verbatim>\<open>getAllDocumentsFromCabinet\<close> requests exactly these windows,
  in this order, and returns one record for every row of the first \<open>k\<close> pages, in
  the order of the rows, each row read against the field names of the first
  page's headers.  Pages of 1000, 1000 and 0 rows thus give exactly 2000
  records.  The records carry the ids that the service sent: nothing is removed
  or renumbered, so the ids are free of duplicates when the rows' are.
\<close>

theorem getAllDocumentsFromCabinet_pages:
  assumes "\<forall>j\<le>k. getRequest' (documentsUrl fileCabinetId (batchRequestCount * j)) = Data (page j)"
    and "\<forall>j<k. rowsOf (page j) \<noteq> []"
    and "rowsOf (page k) = []"
  shows "getAllDocumentsFromCabinet getRequest' fileCabinetId =
    Some (Inr (map (\<lambda>row. documentOf (map FieldName (Headers (page 0))) fileCabinetId (row_Items row))
                 (concat (map (\<lambda>j. rowsOf (page j)) [0..<k]))),
          map (\<lambda>j. documentsUrl fileCabinetId (batchRequestCount * j)) [0..<Suc k])"
  using assms by (rule getAllDocumentsFromCabinet_run)

lemma three_windows:
  "documentsUrl ''c'' (batchRequestCount * 0) =
     ''docuware/platform/FileCabinets/c/Documents?format=table&start=0&count=1000''"
  "documentsUrl ''c'' (batchRequestCount * 1) =
     ''docuware/platform/FileCabinets/c/Documents?format=table&start=1000&count=1000''"
  "documentsUrl ''c'' (batchRequestCount * 2) =
     ''docuware/platform/FileCabinets/c/Documents?format=table&start=2000&count=1000''"
  by (simp_all add: documentsUrl_def batchRequestCount_def digitChar_def)

lemma threePageSource_answers:
  "\<forall>j\<le>2. threePageSource rows0 rows1 (documentsUrl ''c'' (batchRequestCount * j)) =
      Data (threePages rows0 rows1 j)"
proof (intro allI impI)
  fix j :: nat
  assume "j \<le> 2"
  then have "j = 0 \<or> j = 1 \<or> j = 2" by arith
  then show "threePageSource rows0 rows1 (documentsUrl ''c'' (batchRequestCount * j)) =
      Data (threePages rows0 rows1 j)"
    by (elim disjE) (simp_all only: three_windows, simp_all add: threePageSource_def)
qed

lemma threePages_rows:
  assumes "rows0 \<noteq> []" and "rows1 \<noteq> []"
  shows "\<forall>j<2. rowsOf (threePages rows0 rows1 j) \<noteq> []"
    and "rowsOf (threePages rows0 rows1 2) = []"
    and "concat (map (\<lambda>j. rowsOf (threePages rows0 rows1 j)) [0..<2]) = rows0 @ rows1"
    and "map FieldName (Headers (threePages rows0 rows1 0)) = [''DWDOCID'']"
proof -
  show "\<forall>j<2. rowsOf (threePages rows0 rows1 j) \<noteq> []"
    using assms by (simp add: rowsOf_def threePages_def)
  show "rowsOf (threePages rows0 rows1 2) = []"
    by (simp add: rowsOf_def threePages_def)
  have "[0..<2] = [0, Suc 0]" by code_simp
  then show "concat (map (\<lambda>j. rowsOf (threePages rows0 rows1 j)) [0..<2]) = rows0 @ rows1"
    by (simp add: rowsOf_def threePages_def)
  show "map FieldName (Headers (threePages rows0 rows1 0)) = [''DWDOCID'']"
    by (simp add: threePages_def)
qed

lemma three_requests:
  "map (\<lambda>j. documentsUrl ''c'' (batchRequestCount * j)) [0..<Suc 2] =
      [''docuware/platform/FileCabinets/c/Documents?format=table&start=0&count=1000'',
       ''docuware/platform/FileCabinets/c/Documents?format=table&start=1000&count=1000'',
       ''docuware/platform/FileCabinets/c/Documents?format=table&start=2000&count=1000'']"
proof -
  have "[0..<Suc 2] = [0, 1, 2]"
    by code_simp
  then show ?thesis
    by (simp only: list.map three_windows)
qed

theorem getAllDocumentsFromCabinet_pages_witness:
  "\<exists>docs.
     getAllDocumentsFromCabinet (threePageSource (numberedRows 0 1000) (numberedRows (0 + 1000) 1000)) ''c'' =
     Some (Inr docs,
           [''docuware/platform/FileCabinets/c/Documents?format=table&start=0&count=1000'',
            ''docuware/platform/FileCabinets/c/Documents?format=table&start=1000&count=1000'',
            ''docuware/platform/FileCabinets/c/Documents?format=table&start=2000&count=1000'']) \<and>
     length docs = 2000 \<and> distinct (map doc_id docs)"
proof -
  let ?r0 = "numberedRows 0 1000" and ?r1 = "numberedRows (0 + 1000) 1000"
  let ?docs = "map (\<lambda>row. documentOf [''DWDOCID''] ''c'' (row_Items row)) (?r0 @ ?r1)"
  have ne: "?r0 \<noteq> []" "?r1 \<noteq> []"
    by (simp_all add: numberedRows_nonempty)
  have "getAllDocumentsFromCabinet (threePageSource ?r0 ?r1) ''c'' =
    Some (Inr ?docs,
          [''docuware/platform/FileCabinets/c/Documents?format=table&start=0&count=1000'',
           ''docuware/platform/FileCabinets/c/Documents?format=table&start=1000&count=1000'',
           ''docuware/platform/FileCabinets/c/Documents?format=table&start=2000&count=1000''])"
    using getAllDocumentsFromCabinet_pages [where getRequest' = "threePageSource ?r0 ?r1"
        and page = "threePages ?r0 ?r1" and k = 2 and fileCabinetId = "''c''",
        OF threePageSource_answers threePages_rows(1,2) [OF ne]]
    by (simp only: threePages_rows(3,4) [OF ne] three_requests)
  moreover have "length ?docs = 2000"
    by (simp add: length_numberedRows)
  moreover have "distinct (map doc_id ?docs)"
    by (rule distinct_ids_numberedRows)
  ultimately show ?thesis by blast
qed

text \<open>
  The claim as first stated promises ids without duplicates for every service
  that sends pages of 1000, 1000 and 0 rows.  When the second page begins with
  the row the first page ended with (the rows moved by one between the two
  requests), the 2000 records contain its id twice.
\<close>

theorem pagination_keeps_repeated_ids_counterexample:
  "\<exists>docs.
     getAllDocumentsFromCabinet (threePageSource (numberedRows 1 1000) (numberedRows 1000 1000)) ''c'' =
     Some (Inr docs,
           [''docuware/platform/FileCabinets/c/Documents?format=table&start=0&count=1000'',
            ''docuware/platform/FileCabinets/c/Documents?format=table&start=1000&count=1000'',
            ''docuware/platform/FileCabinets/c/Documents?format=table&start=2000&count=1000'']) \<and>
     length docs = 2000 \<and> \<not> distinct (map doc_id docs)"
proof -
  let ?r0 = "numberedRows 1 1000" and ?r1 = "numberedRows 1000 1000"
  let ?docs = "map (\<lambda>row. documentOf [''DWDOCID''] ''c'' (row_Items row)) (?r0 @ ?r1)"
  have ne: "?r0 \<noteq> []" "?r1 \<noteq> []"
    by (simp_all add: numberedRows_nonempty)
  have "getAllDocumentsFromCabinet (threePageSource ?r0 ?r1) ''c'' =
    Some (Inr ?docs,
          [''docuware/platform/FileCabinets/c/Documents?format=table&start=0&count=1000'',
           ''docuware/platform/FileCabinets/c/Documents?format=table&start=1000&count=1000'',
           ''docuware/platform/FileCabinets/c/Documents?format=table&start=2000&count=1000''])"
    using getAllDocumentsFromCabinet_run [where getRequest' = "threePageSource ?r0 ?r1"
        and page = "threePages ?r0 ?r1" and k = 2 and fileCabinetId = "''c''",
        OF threePageSource_answers threePages_rows(1,2) [OF ne]]
    by (simp only: threePages_rows(3,4) [OF ne] three_requests)
  moreover have "length ?docs = 2000"
    by (simp add: length_numberedRows)
  moreover have "\<not> distinct (map doc_id ?docs)"
    by (rule repeated_id_numberedRows) simp_all
  ultimately show ?thesis by blast
qed

section \<open>Properties of the command dispatcher\<close>

lemma noUpdate_simps:
  "noUpdate []"
  "noUpdate (evs @ evs') \<longleftrightarrow> noUpdate evs \<and> noUpdate evs'"
  "noUpdate (Log msg # evs) \<longleftrightarrow> noUpdate evs"
  "noUpdate (Called_initAuthFromToken t e # evs) \<longleftrightarrow> noUpdate evs"
  "noUpdate (Called_getFileCabinets orgId # evs) \<longleftrightarrow> noUpdate evs"
  "noUpdate (Called_getDocument c d # evs) \<longleftrightarrow> noUpdate evs"
  "noUpdate (Called_getDocumentsWithQuery c q # evs) \<longleftrightarrow> noUpdate evs"
  "noUpdate (Called_getDocumentsWithFunction c f # evs) \<longleftrightarrow> noUpdate evs"
  "noUpdate (Called_getAllDocumentsFromCabinet c # evs) \<longleftrightarrow> noUpdate evs"
  by (auto simp: noUpdate_def)

lemma textOrFalsy_iff: "textOrFalsy v \<longleftrightarrow> \<not> truthy v \<or> (\<exists>s. v = JString s)"
  by (cases v) (simp_all add: textOrFalsy_def)

lemma doubleQuotes_empty: "doubleQuotes s = [] \<longleftrightarrow> s = []"
  by (simp add: doubleQuotes_def)

lemma looseEquals_text: "looseEquals rt (JString t) s = Inr (t = s)"
  by (simp add: looseEquals_def)

text \<open>The conversion of a flag that is neither an array nor an object never
  throws, so the retry overrides of such flags go through.\<close>

lemma override_primitive:
  assumes "\<forall>xs. args key \<noteq> JArray xs" and "\<forall>kvs. args key \<noteq> JObject kvs"
  shows "\<exists>n. override rt args key current = Inr n"
  using assms
  by (cases "args key") (auto simp: override_def ToNumber_def split: option.splits)

lemma retryOverrides_primitive:
  assumes "\<forall>key \<in> {''retrymax'', ''retrybase'', ''retryrandmin'', ''retryrandmax''}.
             (\<forall>xs. args key \<noteq> JArray xs) \<and> (\<forall>kvs. args key \<noteq> JObject kvs)"
  shows "\<exists>g1. retryOverrides rt args g = Inr g1"
proof -
  have ok: "\<exists>n. override rt args key current = Inr n"
    if "key \<in> {''retrymax'', ''retrybase'', ''retryrandmin'', ''retryrandmax''}"
    for key current
  proof (rule override_primitive)
    from assms that show "\<forall>xs. args key \<noteq> JArray xs" by blast
    from assms that show "\<forall>kvs. args key \<noteq> JObject kvs" by blast
  qed
  obtain n1 where 1: "override rt args ''retrymax'' (retryMaxCount g) = Inr n1"
    using ok [of "''retrymax''"] by auto
  let ?g1 = "g\<lparr>retryMaxCount := n1\<rparr>"
  obtain n2 where 2: "override rt args ''retrybase'' (retryDelayBaseInSeconds ?g1) = Inr n2"
    using ok [of "''retrybase''"] by auto
  let ?g2 = "?g1\<lparr>retryDelayBaseInSeconds := n2\<rparr>"
  obtain n3 where 3: "override rt args ''retryrandmin'' (retryDelayRandomMinInSeconds ?g2) = Inr n3"
    using ok [of "''retryrandmin''"] by auto
  let ?g3 = "?g2\<lparr>retryDelayRandomMinInSeconds := n3\<rparr>"
  obtain n4 where 4: "override rt args ''retryrandmax'' (retryDelayRandomMaxInSeconds ?g3) = Inr n4"
    using ok [of "''retryrandmax''"] by auto
  from 1 2 3 4 show ?thesis
    by (simp add: retryOverrides_def Let_def)
qed

lemma resolved_execute_downloads:
  "resolved (execute_downloads rt h cabinetText cab fileName writeFolder g documents rest i evs) =
     Some documents"
proof (induction rest arbitrary: i evs)
  case Nil
  show ?case by (simp add: finish_def)
next
  case (Cons document rest)
  show ?case
  proof (cases "ToString rt fileName")
    case (Inl e)
    then show ?thesis by (simp add: attempt_def finish_def)
  next
    case (Inr prefix)
    show ?thesis
    proof (cases "downloadDocument h cab (doc_id document)")
      case (Settled stream)
      show ?thesis
      proof (cases writeFolder)
        case (JString folder)
        show ?thesis
        proof (cases stream)
          case True
          have "execute_downloads rt h cabinetText cab fileName writeFolder g documents (document # rest) i evs =
            execute_downloads rt h cabinetText cab fileName writeFolder g documents rest (Suc i)
              (evs @ [Called_downloadDocument cab (doc_id document)] @
                 [Created_write_stream (path_join rt folder (prefix @ ''_'' @ string_of_nat i @ ''.pdf''))] @
                 [Log (''File '' @ quoted (prefix @ ''_'' @ string_of_nat i @ ''.pdf'') @ '' downloaded.'')])"
            using Inr Settled JString True
            by (simp add: attempt_def await_def Let_def)
          then show ?thesis by (simp only: Cons.IH)
        next
          case False
          with Inr Settled JString show ?thesis
            by (simp add: attempt_def await_def finish_def Let_def)
        qed
      qed (use Inr Settled in \<open>simp_all add: attempt_def await_def finish_def Let_def\<close>)
    qed (use Inr in \<open>simp_all add: attempt_def await_def finish_def Let_def\<close>)
  qed
qed

lemma resolved_attempt:
  assumes "\<And>v. resolved (continue v) = docs"
  shows "resolved (attempt result g evs docs continue) = docs"
  using assms by (cases result) (simp_all add: attempt_def finish_def)

lemma resolved_execute_mode:
  "resolved (execute_mode rt h args mode cabinetName cab g documents evs) = Some documents"
proof -
  consider "mode = JString ''get''" | "mode = JString ''update''" | "mode = JString ''download''"
    | "mode \<noteq> JString ''get''" "mode \<noteq> JString ''update''" "mode \<noteq> JString ''download''"
    by blast
  then show ?thesis
  proof cases
    case 1
    then show ?thesis by (simp add: execute_mode_def finish_def)
  next
    case 2
    show ?thesis
    proof (cases "if truthy (args ''u'') then args ''u'' else JString ''''")
      case (JString u)
      with 2 show ?thesis
        by (simp add: execute_mode_def finish_def await_def Let_def
            split: option.splits list.splits awaited.splits)
    qed (use 2 in \<open>simp_all add: execute_mode_def finish_def\<close>)
  next
    case 3
    then show ?thesis
      by (simp add: execute_mode_def finish_def Let_def resolved_attempt resolved_execute_downloads)
  next
    case 4
    then show ?thesis
      by (simp add: execute_mode_def resolved_attempt finish_def)
  qed
qed

lemma execute_mode_update_several:
  assumes "1 < length documents" and "noUpdate called"
  shows "haltsBeforeUpdate rt args
    (execute_mode rt h args (JString ''update'') cabinetName cab g documents
       (called @ [Log ''Completed document fetching.'']))"
proof (cases "textOrFalsy (args ''u'')")
  case True
  then consider "\<not> truthy (args ''u'')" | u where "args ''u'' = JString u" "u \<noteq> []"
    by (cases "args ''u''") (auto simp: textOrFalsy_def)
  then show ?thesis
  proof cases
    case 1
    with True assms show ?thesis
      by (auto simp: execute_mode_def finish_def Let_def haltsBeforeUpdate_def noUpdate_simps
          guardMessages_def doubleQuotes_def)
  next
    case 2
    with True assms show ?thesis
      by (auto simp: execute_mode_def finish_def Let_def haltsBeforeUpdate_def noUpdate_simps
          guardMessages_def doubleQuotes_empty split: option.splits)
  qed
next
  case False
  then have "truthy (args ''u'')" and "\<forall>u. args ''u'' \<noteq> JString u"
    by (auto simp: textOrFalsy_iff)
  with False assms show ?thesis
    by (cases "args ''u''")
       (simp_all add: execute_mode_def finish_def haltsBeforeUpdate_def noUpdate_simps)
qed

lemma execute_documents_update_several:
  assumes "resolved (execute_documents rt h args (JString ''update'') cabinetName cab g evs) =
      Some documents"
    and "1 < length documents" and "noUpdate evs"
  shows "haltsBeforeUpdate rt args
    (execute_documents rt h args (JString ''update'') cabinetName cab g evs)"
proof -
  let ?evs = "evs @ [Log ''Fetching documents...'']"
  have fetched: "haltsBeforeUpdate rt args r"
    if r: "r = (let evs' = called @ [Log ''Completed document fetching.'']
            in if docs = [] then
                 finish Returned g (evs' @ [Log ''No matching documents found.'']) (Some docs)
               else execute_mode rt h args (JString ''update'') cabinetName cab g docs evs')"
      and res: "resolved r = Some documents" and called: "noUpdate called"
    for r called docs
  proof (cases "docs = []")
    case True
    with r res assms(2) show ?thesis by (simp add: finish_def)
  next
    case False
    with r have r': "r = execute_mode rt h args (JString ''update'') cabinetName cab g docs
        (called @ [Log ''Completed document fetching.''])"
      by (simp add: Let_def)
    with res have "docs = documents" by (simp add: resolved_execute_mode)
    with assms(2) called show ?thesis
      unfolding r' by (intro execute_mode_update_several) simp_all
  qed
  show ?thesis
  proof (cases "truthy (args ''i'')")
    case byId: True
    show ?thesis
    proof (cases "getDocument_of h cab (args ''i'')")
      case (Settled document)
      show ?thesis
        by (rule fetched [where docs = "[document]"
              and called = "?evs @ [Called_getDocument cab (args ''i'')]"])
           (use assms byId Settled in
             \<open>simp_all add: execute_documents_def await_def Let_def noUpdate_simps\<close>)
    qed (use assms byId in \<open>simp_all add: execute_documents_def await_def finish_def Let_def\<close>)
  next
    case noId: False
    show ?thesis
    proof (cases "truthy (args ''q'')")
      case byQuery: True
      show ?thesis
      proof (cases "getDocumentsWithQuery_of h cab (args ''q'')")
        case (Settled docs)
        show ?thesis
          by (rule fetched [where docs = docs
                and called = "?evs @ [Called_getDocumentsWithQuery cab (args ''q'')]"])
             (use assms noId byQuery Settled in
               \<open>simp_all add: execute_documents_def await_def Let_def noUpdate_simps\<close>)
      qed (use assms noId byQuery in
            \<open>simp_all add: execute_documents_def await_def finish_def Let_def\<close>)
    next
      case noQuery: False
      show ?thesis
      proof (cases "truthy (args ''f'')")
        case byFunction: True
        show ?thesis
        proof (cases "getDocumentsWithFunction h cab (args ''f'')")
          case (Settled docs)
          show ?thesis
            by (rule fetched [where docs = docs
                  and called = "?evs @ [Called_getDocumentsWithFunction cab (args ''f'')]"])
               (use assms noId noQuery byFunction Settled in
                 \<open>simp_all add: execute_documents_def await_def Let_def noUpdate_simps\<close>)
        qed (use assms noId noQuery byFunction in
              \<open>simp_all add: execute_documents_def await_def finish_def Let_def\<close>)
      next
        case False
        with assms noId noQuery show ?thesis
          by (simp add: execute_documents_def attempt_def finish_def Let_def looseEquals_text)
      qed
    qed
  qed
qed

lemma execute_cabinet_update_several:
  assumes "resolved (execute_cabinet rt h args (JString ''update'') cabinetName cab g evs) =
      Some documents"
    and "1 < length documents" and "noUpdate evs"
  shows "haltsBeforeUpdate rt args
    (execute_cabinet rt h args (JString ''update'') cabinetName cab g evs)"
proof -
  have run: "execute_cabinet rt h args (JString ''update'') cabinetName cab g evs =
      execute_documents rt h args (JString ''update'') cabinetName cab g evs"
    by (simp add: execute_cabinet_def attempt_def looseEquals_text)
  from assms show ?thesis
    unfolding run by (rule execute_documents_update_several)
qed

lemma execute_cabinets_update_several:
  assumes "resolved (execute_cabinets rt h args (JString ''update'') g evs) = Some documents"
    and "1 < length documents" and "noUpdate evs"
  shows "haltsBeforeUpdate rt args (execute_cabinets rt h args (JString ''update'') g evs)"
proof (cases "getFileCabinets h ''1''")
  case (Settled cabinets)
  let ?evs = "evs @ [Called_getFileCabinets ''1'']"
  show ?thesis
  proof (cases "truthy (args ''c'')")
    case False
    with assms Settled show ?thesis
      by (simp add: execute_cabinets_def await_def attempt_def finish_def Let_def looseEquals_text)
  next
    case named: True
    show ?thesis
    proof (cases cabinets)
      case None
      with assms Settled named show ?thesis
        by (simp add: execute_cabinets_def await_def attempt_def finish_def Let_def looseEquals_text)
    next
      case listed: (Some listed)
      show ?thesis
      proof (cases "matchingCabinets rt (args ''c'') listed")
        case (Inl e)
        with assms Settled named listed show ?thesis
          by (simp add: execute_cabinets_def await_def attempt_def finish_def Let_def looseEquals_text)
      next
        case (Inr matching)
        show ?thesis
        proof (cases matching)
          case Nil
          with assms Settled named listed Inr show ?thesis
            by (simp add: execute_cabinets_def await_def attempt_def finish_def Let_def
                looseEquals_text split: sum.splits)
        next
          case (Cons first others)
          show ?thesis
          proof (cases "others = []")
            case True
            have run: "execute_cabinets rt h args (JString ''update'') g evs =
                execute_cabinet rt h args (JString ''update'') (args ''c'') (Id first) g ?evs"
              using Settled named listed Inr Cons True
              by (simp add: execute_cabinets_def await_def attempt_def Let_def looseEquals_text)
            have "noUpdate ?evs"
              using assms(3) by (simp add: noUpdate_simps)
            with assms(1,2) show ?thesis
              unfolding run by (rule execute_cabinet_update_several)
          next
            case False
            show ?thesis
            proof (cases "ToString rt (args ''c'')")
              case (Inl e)
              with assms Settled named listed Inr Cons False show ?thesis
                by (simp add: execute_cabinets_def await_def attempt_def finish_def Let_def
                    looseEquals_text)
            next
              case converted: (Inr cabinetText)
              let ?evs1 = "?evs @ [Log (''WARNING: There are multiple cabinets with the name '' @
                     quoted cabinetText @ '', using the first one.'')]"
              have run: "execute_cabinets rt h args (JString ''update'') g evs =
                  execute_cabinet rt h args (JString ''update'') (args ''c'') (Id first) g ?evs1"
                using Settled named listed Inr Cons False converted
                by (simp add: execute_cabinets_def await_def attempt_def Let_def looseEquals_text)
              have "noUpdate ?evs1"
                using assms(3) by (simp add: noUpdate_simps)
              with assms(1,2) show ?thesis
                unfolding run by (rule execute_cabinet_update_several)
            qed
          qed
        qed
      qed
    qed
  qed
qed (use assms in \<open>simp_all add: execute_cabinets_def await_def finish_def Let_def\<close>)

lemma execute_update_several:
  assumes "args ''m'' = JString ''update''"
    and "resolved (execute rt h args g) = Some documents"
    and "1 < length documents"
  shows "haltsBeforeUpdate rt args (execute rt h args g)"
proof (cases "retryOverrides rt args g")
  case (Inl thrown)
  with assms show ?thesis
    by (cases thrown) (simp add: execute_def finish_def)
next
  case (Inr g1)
  let ?g2 = "g1\<lparr>endpoint := args ''e''\<rparr>"
  show ?thesis
  proof (cases "truthy (args ''e'')")
    case False
    with assms Inr show ?thesis
      by (simp add: execute_def finish_def Let_def)
  next
    case reachable: True
    show ?thesis
    proof (cases "truthy (args ''t'')")
      case noToken: False
      show ?thesis
      proof (cases "truthy (args ''x'')")
        case False
        with assms Inr reachable noToken show ?thesis
          by (simp add: execute_def attempt_def finish_def Let_def looseEquals_text)
      next
        case True
        have run: "execute rt h args g =
            execute_cabinets rt h args (JString ''update'') (?g2\<lparr>cookie := args ''x''\<rparr>) []"
          using assms(1) Inr reachable noToken True
          by (simp add: execute_def attempt_def Let_def looseEquals_text)
        from assms(2,3) show ?thesis
          unfolding run by (rule execute_cabinets_update_several) (simp add: noUpdate_simps)
      qed
    next
      case token: True
      show ?thesis
      proof (cases "truthy (args ''x'')")
        case True
        with assms Inr reachable token show ?thesis
          by (simp add: execute_def attempt_def finish_def Let_def looseEquals_text)
      next
        case False
        show ?thesis
        proof (cases "initAuthFromToken h (args ''t'') (args ''e'')")
          case (Settled tokenCookie)
          have run: "execute rt h args g =
              execute_cabinets rt h args (JString ''update'') (?g2\<lparr>cookie := JString tokenCookie\<rparr>)
                [Called_initAuthFromToken (args ''t'') (args ''e'')]"
            using assms(1) Inr reachable token False Settled
            by (simp add: execute_def attempt_def await_def Let_def looseEquals_text)
          from assms(2,3) show ?thesis
            unfolding run by (rule execute_cabinets_update_several) (simp add: noUpdate_simps)
        qed (use assms Inr reachable token False in
              \<open>simp_all add: execute_def attempt_def await_def finish_def Let_def looseEquals_text\<close>)
      qed
    qed
  qed
qed

text \<open>
  Claim C8 says that under the mode \<^verbatim>\<open>update\<close> a run that has fetched more
  than one document prints a message and halts without calling
  \<^verbatim>\<open>updateDocument\<close>.  In every such run \<^verbatim>\<open>updateDocument\<close> is called
  nowhere.  When the flag \<^verbatim>\<open>-u\<close> is absent, falsy or a string, the run returns
  and the last thing it does is to print one of the three messages the mode
  gives up with, the message of the guard on the number of documents whenever
  \<^verbatim>\<open>-u\<close> holds text that \<^verbatim>\<open>JSON.parse\<close> accepts.  When \<^verbatim>\<open>-u\<close> is
  anything else (a number as in \<^verbatim>\<open>-u 5\<close>, \<^verbatim>\<open>true\<close> as in a bare
  \<^verbatim>\<open>-u\<close>, an array or an object) the call of \<^verbatim>\<open>replace\<close> on it throws: the
  run ends with an exception nobody handles, and the last line it has printed
  is \<^verbatim>\<open>Completed document fetching.\<close>, no message of the guard.
\<close>

theorem update_of_several_documents_halts:
  assumes "args ''m'' = JString ''update''"
    and "resolved (execute rt h args g) = Some documents"
    and "1 < length documents"
  shows "(\<forall>cabinetId documentId jsonFields.
            Called_updateDocument cabinetId documentId jsonFields \<notin> set (events (execute rt h args g))) \<and>
         (textOrFalsy (args ''u'') \<longrightarrow>
            ending (execute rt h args g) = Returned \<and>
            (\<exists>msg. events (execute rt h args g) \<noteq> [] \<and>
                   last (events (execute rt h args g)) = Log msg \<and>
                   msg \<in> {''-u update json not defined.'',
                          ''-u is not valid json (remember to use single quotes).'',
                          ''Multiple matching documents found, tighten the fitler function.''}) \<and>
            (\<forall>u updateJSON.
               args ''u'' = JString u \<and> u \<noteq> [] \<and> JSON_parse rt (doubleQuotes u) = Some updateJSON \<longrightarrow>
               last (events (execute rt h args g)) =
                 Log ''Multiple matching documents found, tighten the fitler function.'')) \<and>
         (\<not> textOrFalsy (args ''u'') \<longrightarrow>
            ending (execute rt h args g) = Unhandled \<and>
            events (execute rt h args g) \<noteq> [] \<and>
            last (events (execute rt h args g)) = Log ''Completed document fetching.'')"
  using execute_update_several [OF assms]
  unfolding haltsBeforeUpdate_def noUpdate_def guardMessages_def .

theorem update_of_several_documents_halts_witness:
  "(let run = execute braceRuntime
        (throwingHelpers
           \<lparr>getFileCabinets := (\<lambda>orgId. Settled (Some [\<lparr>Name = ''Meter'', Id = ''cab1''\<rparr>])),
            getDocumentsWithQuery_of :=
              (\<lambda>cabinetId downloadQueryStr.
                 Settled [\<lparr>doc_id = JNumber 1, doc_cabinetId = cabinetId, doc_row = []\<rparr>,
                          \<lparr>doc_id = JNumber 2, doc_cabinetId = cabinetId, doc_row = []\<rparr>])\<rparr>)
        (flags [(''m'', JString ''update''), (''e'', JString ''https://test.docuware.cloud''),
                (''x'', JString ''SESSION=1''), (''c'', JString ''Meter''),
                (''q'', JString ''A = [1]''), (''u'', JNumber 5)])
        (stored GLOBALS)
    in ending run = Unhandled \<and>
       last (events run) = Log ''Completed document fetching.'' \<and>
       Called_updateDocument ''cab1'' (JNumber 1) ''5'' \<notin> set (events run))"
proof -
  let ?h = "throwingHelpers
           \<lparr>getFileCabinets := (\<lambda>orgId. Settled (Some [\<lparr>Name = ''Meter'', Id = ''cab1''\<rparr>])),
            getDocumentsWithQuery_of :=
              (\<lambda>cabinetId downloadQueryStr.
                 Settled [\<lparr>doc_id = JNumber 1, doc_cabinetId = cabinetId, doc_row = []\<rparr>,
                          \<lparr>doc_id = JNumber 2, doc_cabinetId = cabinetId, doc_row = []\<rparr>])\<rparr>"
  let ?args = "flags [(''m'', JString ''update''), (''e'', JString ''https://test.docuware.cloud''),
                (''x'', JString ''SESSION=1''), (''c'', JString ''Meter''),
                (''q'', JString ''A = [1]''), (''u'', JNumber 5)]"
  let ?docs = "[\<lparr>doc_id = JNumber 1, doc_cabinetId = ''cab1'', doc_row = []\<rparr>,
                \<lparr>doc_id = JNumber 2, doc_cabinetId = ''cab1'', doc_row = []\<rparr>]"
  have m: "?args ''m'' = JString ''update''"
    by (simp add: flags_def)
  have u: "\<not> textOrFalsy (?args ''u'')"
    by (simp add: flags_def textOrFalsy_def)
  have docs: "resolved (execute braceRuntime ?h ?args (stored GLOBALS)) = Some ?docs"
    by (simp add: execute_def retryOverrides_def override_def execute_cabinets_def
        execute_cabinet_def execute_documents_def execute_mode_def looseEquals_def
        await_def attempt_def finish_def flags_def throwingHelpers_def)
  have len: "1 < length ?docs" by simp
  note halts = update_of_several_documents_halts [OF m docs len]
  from halts u have "ending (execute braceRuntime ?h ?args (stored GLOBALS)) = Unhandled"
    by blast
  moreover from halts u
  have "last (events (execute braceRuntime ?h ?args (stored GLOBALS))) =
      Log ''Completed document fetching.''"
    by blast
  moreover from halts
  have "Called_updateDocument ''cab1'' (JNumber 1) ''5'' \<notin>
      set (events (execute braceRuntime ?h ?args (stored GLOBALS)))"
    by blast
  ultimately show ?thesis by (simp add: Let_def)
qed

text \<open>The two runs side by side, on the same two documents: with the flag
  \<^verbatim>\<open>-u 5\<close>, which \<^verbatim>\<open>minimist\<close> hands over as a number, and with the flag
  \<^verbatim>\<open>-u "{}"\<close>.\<close>

lemma update_run_with_number_flag:
  "execute braceRuntime
     (throwingHelpers
        \<lparr>getFileCabinets := (\<lambda>orgId. Settled (Some [\<lparr>Name = ''Meter'', Id = ''cab1''\<rparr>])),
         getDocumentsWithQuery_of :=
           (\<lambda>cabinetId downloadQueryStr.
              Settled [\<lparr>doc_id = JNumber 1, doc_cabinetId = cabinetId, doc_row = []\<rparr>,
                       \<lparr>doc_id = JNumber 2, doc_cabinetId = cabinetId, doc_row = []\<rparr>])\<rparr>)
     (flags [(''m'', JString ''update''), (''e'', JString ''https://test.docuware.cloud''),
             (''x'', JString ''SESSION=1''), (''c'', JString ''Meter''),
             (''q'', JString ''A = [1]''), (''u'', JNumber 5)])
     (stored GLOBALS) =
   \<lparr>events = [Called_getFileCabinets ''1'', Log ''Fetching documents...'',
              Called_getDocumentsWithQuery ''cab1'' (JString ''A = [1]''),
              Log ''Completed document fetching.''],
    globals = stored GLOBALS
      \<lparr>endpoint := JString ''https://test.docuware.cloud'', cookie := JString ''SESSION=1''\<rparr>,
    ending = Unhandled,
    resolved = Some [\<lparr>doc_id = JNumber 1, doc_cabinetId = ''cab1'', doc_row = []\<rparr>,
                     \<lparr>doc_id = JNumber 2, doc_cabinetId = ''cab1'', doc_row = []\<rparr>]\<rparr>"
  by (simp add: execute_def retryOverrides_def override_def execute_cabinets_def
      execute_cabinet_def execute_documents_def execute_mode_def looseEquals_def
      await_def attempt_def finish_def flags_def throwingHelpers_def)

lemma update_run_with_text_flag:
  "execute braceRuntime
     (throwingHelpers
        \<lparr>getFileCabinets := (\<lambda>orgId. Settled (Some [\<lparr>Name = ''Meter'', Id = ''cab1''\<rparr>])),
         getDocumentsWithQuery_of :=
           (\<lambda>cabinetId downloadQueryStr.
              Settled [\<lparr>doc_id = JNumber 1, doc_cabinetId = cabinetId, doc_row = []\<rparr>,
                       \<lparr>doc_id = JNumber 2, doc_cabinetId = cabinetId, doc_row = []\<rparr>])\<rparr>)
     (flags [(''m'', JString ''update''), (''e'', JString ''https://test.docuware.cloud''),
             (''x'', JString ''SESSION=1''), (''c'', JString ''Meter''),
             (''q'', JString ''A = [1]''), (''u'', JString ''{}'')])
     (stored GLOBALS) =
   \<lparr>events = [Called_getFileCabinets ''1'', Log ''Fetching documents...'',
              Called_getDocumentsWithQuery ''cab1'' (JString ''A = [1]''),
              Log ''Completed document fetching.'',
              Log ''Multiple matching documents found, tighten the fitler function.''],
    globals = stored GLOBALS
      \<lparr>endpoint := JString ''https://test.docuware.cloud'', cookie := JString ''SESSION=1''\<rparr>,
    ending = Returned,
    resolved = Some [\<lparr>doc_id = JNumber 1, doc_cabinetId = ''cab1'', doc_row = []\<rparr>,
                     \<lparr>doc_id = JNumber 2, doc_cabinetId = ''cab1'', doc_row = []\<rparr>]\<rparr>"
  by (simp add: execute_def retryOverrides_def override_def execute_cabinets_def
      execute_cabinet_def execute_documents_def execute_mode_def looseEquals_def
      await_def attempt_def finish_def flags_def throwingHelpers_def braceRuntime_def
      doubleQuotes_def)

text \<open>
  Claim C1 says that with both a token and a cookie the dispatcher goes on
  with the cookie and only warns.  The code prints the warning and returns: for
  every mode other than \<^verbatim>\<open>gencookie\<close> and \<^verbatim>\<open>gentoken\<close>, a run that is given
  a mode, an endpoint, a token and a cookie consists of that one line.  It calls
  no helper, and the cookie is not stored in \<^verbatim>\<open>GLOBALS.cookie\<close>.  (The
  first hypothesis says that the retry overrides before have not thrown, as is
  the case whenever no retry flag is an array or an object.)
\<close>

theorem both_token_and_cookie_halt:
  assumes "retryOverrides rt args g = Inr g1"
    and "truthy (args ''m'')"
    and "looseEquals rt (args ''m'') ''gencookie'' = Inr False"
    and "looseEquals rt (args ''m'') ''gentoken'' = Inr False"
    and "truthy (args ''e'')"
    and "truthy (args ''t'')" and "truthy (args ''x'')"
  shows "execute rt h args g =
    \<lparr>events = [Log ''both cookie and token were provided... using existing cookie.''],
     globals = g1\<lparr>endpoint := args ''e''\<rparr>,
     ending = Returned, resolved = None\<rparr>"
  using assms by (simp add: execute_def attempt_def finish_def Let_def)

theorem both_token_and_cookie_halt_witness:
  "execute braceRuntime throwingHelpers
     (flags [(''m'', JString ''lscabinets''), (''e'', JString ''https://test.docuware.cloud''),
             (''t'', JString ''ABC''), (''x'', JString ''SESSION=1'')])
     (stored GLOBALS) =
   \<lparr>events = [Log ''both cookie and token were provided... using existing cookie.''],
    globals = stored GLOBALS\<lparr>endpoint := JString ''https://test.docuware.cloud''\<rparr>,
    ending = Returned, resolved = None\<rparr>"
proof -
  let ?args = "flags [(''m'', JString ''lscabinets''), (''e'', JString ''https://test.docuware.cloud''),
             (''t'', JString ''ABC''), (''x'', JString ''SESSION=1'')]"
  have overrides: "retryOverrides braceRuntime ?args (stored GLOBALS) = Inr (stored GLOBALS)"
    by (simp add: retryOverrides_def override_def flags_def)
  have "execute braceRuntime throwingHelpers ?args (stored GLOBALS) =
    \<lparr>events = [Log ''both cookie and token were provided... using existing cookie.''],
     globals = stored GLOBALS\<lparr>endpoint := ?args ''e''\<rparr>,
     ending = Returned, resolved = None\<rparr>"
    by (rule both_token_and_cookie_halt [OF overrides])
       (simp_all add: flags_def looseEquals_def)
  then show ?thesis by (simp add: flags_def)
qed

text \<open>With the cookie alone the run stores it and goes on to list the cabinets:
  the path that the message announces.\<close>

lemma cookie_alone_proceeds:
  assumes "retryOverrides rt args g = Inr g1"
    and "truthy (args ''m'')"
    and "looseEquals rt (args ''m'') ''gencookie'' = Inr False"
    and "looseEquals rt (args ''m'') ''gentoken'' = Inr False"
    and "truthy (args ''e'')"
    and "\<not> truthy (args ''t'')" and "truthy (args ''x'')"
  shows "execute rt h args g =
    execute_cabinets rt h args (args ''m'') (g1\<lparr>endpoint := args ''e'', cookie := args ''x''\<rparr>) []"
  using assms by (simp add: execute_def attempt_def Let_def)
end
